theory Spec2Isabelle
  imports Main "HOL-Library.Multiset" "HOL-Library.Char_ord" "HOL-Library.List_Lexorder"
begin

section \<open>JavaScript strings\<close>

text \<open>
  A JavaScript string is a sequence of UTF-16 code units. The model uses \<^typ>\<open>string\<close>,
  one \<^typ>\<open>char\<close> per code unit, and so covers the strings whose code units lie in
  U+0000..U+00FF. On that range the functions below are the ECMAScript ones:
  \<open>toLowerCase\<close> maps A..Z and the upper-case letters of Latin-1 (U+00C0..U+00DE
  without the multiplication sign U+00D7) to the letter 32 positions later, and
  \<open>trim\<close> and the regular expression class \<open>\s\<close> take as white space the code
  units 9..13, 32 and 160.
\<close>

definition upperLetters :: "char list" where
  "upperLetters = ''ABCDEFGHIJKLMNOPQRSTUVWXYZ'' @
     [CHR 0xC0, CHR 0xC1, CHR 0xC2, CHR 0xC3, CHR 0xC4, CHR 0xC5, CHR 0xC6, CHR 0xC7,
      CHR 0xC8, CHR 0xC9, CHR 0xCA, CHR 0xCB, CHR 0xCC, CHR 0xCD, CHR 0xCE, CHR 0xCF,
      CHR 0xD0, CHR 0xD1, CHR 0xD2, CHR 0xD3, CHR 0xD4, CHR 0xD5, CHR 0xD6,
      CHR 0xD8, CHR 0xD9, CHR 0xDA, CHR 0xDB, CHR 0xDC, CHR 0xDD, CHR 0xDE]"

definition lowerLetters :: "char list" where
  "lowerLetters = ''abcdefghijklmnopqrstuvwxyz'' @
     [CHR 0xE0, CHR 0xE1, CHR 0xE2, CHR 0xE3, CHR 0xE4, CHR 0xE5, CHR 0xE6, CHR 0xE7,
      CHR 0xE8, CHR 0xE9, CHR 0xEA, CHR 0xEB, CHR 0xEC, CHR 0xED, CHR 0xEE, CHR 0xEF,
      CHR 0xF0, CHR 0xF1, CHR 0xF2, CHR 0xF3, CHR 0xF4, CHR 0xF5, CHR 0xF6,
      CHR 0xF8, CHR 0xF9, CHR 0xFA, CHR 0xFB, CHR 0xFC, CHR 0xFD, CHR 0xFE]"

definition lowerChar :: "char \<Rightarrow> char" where
  "lowerChar c = (case map_of (zip upperLetters lowerLetters) c of Some d \<Rightarrow> d | None \<Rightarrow> c)"

definition upperChar :: "char \<Rightarrow> char" where
  "upperChar c = (case map_of (zip lowerLetters upperLetters) c of Some d \<Rightarrow> d | None \<Rightarrow> c)"

definition toLowerCase :: "string \<Rightarrow> string" where
  "toLowerCase s = map lowerChar s"

text \<open>
  \<open>toUpperCase\<close> is exact on the letters whose upper-case form is again one code unit
  below U+0100. Its one caller, \<open>toPascalCase\<close>, applies it to the empty string or to
  a single character of \<open>[A-Za-z0-9]\<close>.
\<close>

definition toUpperCase :: "string \<Rightarrow> string" where
  "toUpperCase s = map upperChar s"

definition isWhiteSpace :: "char \<Rightarrow> bool" where
  "isWhiteSpace c = (c \<in> set [CHR 0x09, CHR 0x0A, CHR 0x0B, CHR 0x0C, CHR 0x0D, CHR 0x20, CHR 0xA0])"

definition trim :: "string \<Rightarrow> string" where
  "trim s = rev (dropWhile isWhiteSpace (rev (dropWhile isWhiteSpace s)))"

fun startsWith :: "string \<Rightarrow> string \<Rightarrow> bool" where
  "startsWith s [] = True"
| "startsWith [] (q # qs) = False"
| "startsWith (c # cs) (q # qs) = (c = q \<and> startsWith cs qs)"

definition endsWith :: "string \<Rightarrow> string \<Rightarrow> bool" where
  "endsWith s suf = startsWith (rev s) (rev suf)"

text \<open>\<open>s.includes(q)\<close>: \<open>q\<close> occurs in \<open>s\<close> as a contiguous substring.\<close>

fun includesStr :: "string \<Rightarrow> string \<Rightarrow> bool" where
  "includesStr [] q = (q = [])"
| "includesStr (c # cs) q = (startsWith (c # cs) q \<or> includesStr cs q)"

text \<open>\<open>xs.join(sep)\<close> on an array of strings.\<close>

fun join :: "string \<Rightarrow> string list \<Rightarrow> string" where
  "join sep [] = []"
| "join sep [x] = x"
| "join sep (x # y # ys) = x @ sep @ join sep (y # ys)"

text \<open>
  A value that may be \<open>null\<close> or \<open>undefined\<close> is an \<open>option\<close>, \<open>None\<close> standing
  for both. \<open>v || ''\<close> on such a string:
\<close>

definition orEmpty :: "string option \<Rightarrow> string" where
  "orEmpty v = (case v of None \<Rightarrow> [] | Some s \<Rightarrow> s)"

section \<open>detectRdfFormatFromFilename\<close>

definition detectRdfFormatFromFilename :: "string option \<Rightarrow> string" where
  "detectRdfFormatFromFilename filename =
     (let lower = toLowerCase (orEmpty filename) in
      if endsWith lower ''.ttl'' \<or> endsWith lower ''.n3'' then ''text/turtle''
      else if endsWith lower ''.nt'' then ''application/n-triples''
      else if endsWith lower ''.nq'' then ''application/n-quads''
      else if endsWith lower ''.trig'' then ''application/trig''
      else ''text/turtle'')"

section \<open>RDF terms, quads and the store\<close>

text \<open>
  A term of the RDF library carries a kind tag, a value and, for a literal, a language
  tag that is the empty string when the literal has none. The store is read through
  \<open>getQuads\<close> only; it is modelled by the list that \<open>getQuads(null, null, null, null)\<close>
  returns.
\<close>

datatype rdfTerm =
    NamedNode string
  | BlankNode string
  | Literal string string
  | Variable string

fun termValue :: "rdfTerm \<Rightarrow> string" where
  "termValue (NamedNode v) = v"
| "termValue (BlankNode v) = v"
| "termValue (Literal v l) = v"
| "termValue (Variable v) = v"

text \<open>\<open>l.language\<close>; \<open>undefined\<close> on a term that is no literal, which is as falsy as \<open>''\<close>.\<close>

fun termLanguage :: "rdfTerm \<Rightarrow> string" where
  "termLanguage (Literal v l) = l"
| "termLanguage _ = []"

fun isNamedNode :: "rdfTerm \<Rightarrow> bool" where
  "isNamedNode (NamedNode v) = True"
| "isNamedNode _ = False"

fun isLiteral :: "rdfTerm \<Rightarrow> bool" where
  "isLiteral (Literal v l) = True"
| "isLiteral _ = False"

fun isBlankNode :: "rdfTerm \<Rightarrow> bool" where
  "isBlankNode (BlankNode v) = True"
| "isBlankNode _ = False"

record quad =
  subject :: rdfTerm
  predicate :: rdfTerm
  object :: rdfTerm

type_synonym store = "quad list"

section \<open>pickBestLiteral\<close>

definition pickBestLiteral :: "rdfTerm list \<Rightarrow> rdfTerm option" where
  "pickBestLiteral literals =
     (case literals of
        [] \<Rightarrow> None
      | first # others \<Rightarrow>
          (let withLang = filter (\<lambda>l. termLanguage l \<noteq> []) literals in
           case find (\<lambda>l. toLowerCase (termLanguage l) = ''en'') withLang of
             Some en \<Rightarrow> Some en
           | None \<Rightarrow>
               (case find (\<lambda>l. termLanguage l = []) literals of
                  Some noLang \<Rightarrow> Some noLang
                | None \<Rightarrow> Some first)))"

section \<open>Namespaces\<close>

definition NS_rdf :: string where "NS_rdf = ''http://www.w3.org/1999/02/22-rdf-syntax-ns#''"
definition NS_rdfs :: string where "NS_rdfs = ''http://www.w3.org/2000/01/rdf-schema#''"
definition NS_owl :: string where "NS_owl = ''http://www.w3.org/2002/07/owl#''"
definition NS_dc :: string where "NS_dc = ''http://purl.org/dc/elements/1.1/''"
definition NS_dcterms :: string where "NS_dcterms = ''http://purl.org/dc/terms/''"
definition NS_skos :: string where "NS_skos = ''http://www.w3.org/2004/02/skos/core#''"
definition NS_obo :: string where "NS_obo = ''http://purl.obolibrary.org/obo/''"
definition NS_cco :: string where
  "NS_cco = ''http://www.ontologyrepository.com/CommonCoreOntologies/''"
definition NS_cco2 :: string where "NS_cco2 = ''https://www.commoncoreontologies.org/''"

section \<open>Graph accessors\<close>

definition getOntologySubjectIri :: "store \<Rightarrow> string option" where
  "getOntologySubjectIri st =
     (case find (\<lambda>q. isNamedNode (predicate q) \<and>
                      termValue (predicate q) = NS_rdf @ ''type'' \<and>
                      isNamedNode (object q) \<and>
                      termValue (object q) = NS_owl @ ''Ontology'') st of
        None \<Rightarrow> None
      | Some candidate \<Rightarrow> Some (termValue (subject candidate)))"

definition getQuadsForSubject :: "store \<Rightarrow> string \<Rightarrow> quad list" where
  "getQuadsForSubject st subjectIri =
     filter (\<lambda>q. isNamedNode (subject q) \<and> termValue (subject q) = subjectIri) st"

text \<open>The literal objects that one candidate predicate contributes, in store order.\<close>

definition literalsOfPredicate :: "quad list \<Rightarrow> string \<Rightarrow> rdfTerm list" where
  "literalsOfPredicate subjectQuads p =
     map object (filter (\<lambda>q. isNamedNode (predicate q) \<and> termValue (predicate q) = p \<and>
                             isLiteral (object q)) subjectQuads)"

text \<open>The \<open>for (const p of predicateIris)\<close> loop; \<open>if (best)\<close> tests an object against \<open>null\<close>.\<close>

fun preferredLiteralLoop :: "quad list \<Rightarrow> string list \<Rightarrow> string option" where
  "preferredLiteralLoop subjectQuads [] = None"
| "preferredLiteralLoop subjectQuads (p # ps) =
     (case pickBestLiteral (literalsOfPredicate subjectQuads p) of
        Some best \<Rightarrow> Some (termValue best)
      | None \<Rightarrow> preferredLiteralLoop subjectQuads ps)"

definition getPreferredLiteralForPredicates :: "store \<Rightarrow> string \<Rightarrow> string list \<Rightarrow> string option" where
  "getPreferredLiteralForPredicates st subjectIri predicateIris =
     preferredLiteralLoop (getQuadsForSubject st subjectIri) predicateIris"

definition irisOfPredicate :: "quad list \<Rightarrow> string \<Rightarrow> rdfTerm list" where
  "irisOfPredicate subjectQuads p =
     map object (filter (\<lambda>q. isNamedNode (predicate q) \<and> termValue (predicate q) = p \<and>
                             isNamedNode (object q)) subjectQuads)"

fun preferredIriLoop :: "quad list \<Rightarrow> string list \<Rightarrow> string option" where
  "preferredIriLoop subjectQuads [] = None"
| "preferredIriLoop subjectQuads (p # ps) =
     (case irisOfPredicate subjectQuads p of
        iriObj # others \<Rightarrow> Some (termValue iriObj)
      | [] \<Rightarrow> preferredIriLoop subjectQuads ps)"

definition getPreferredIriForPredicates :: "store \<Rightarrow> string \<Rightarrow> string list \<Rightarrow> string option" where
  "getPreferredIriForPredicates st subjectIri predicateIris =
     preferredIriLoop (getQuadsForSubject st subjectIri) predicateIris"

text \<open>
  A \<open>Set\<close> of strings keeps its members in the order of their first insertion, which is
  the order \<open>Array.from\<close> reads them in.
\<close>

definition setAdd :: "string list \<Rightarrow> string \<Rightarrow> string list" where
  "setAdd vals v = (if v \<in> set vals then vals else vals @ [v])"

definition collectValues :: "(quad \<Rightarrow> bool) \<Rightarrow> quad list \<Rightarrow> string list" where
  "collectValues wanted subjectQuads =
     fold (\<lambda>q vals. if wanted q then setAdd vals (termValue (object q)) else vals)
          subjectQuads []"

definition getLiteralArrayForPredicates :: "store \<Rightarrow> string \<Rightarrow> string list \<Rightarrow> string list" where
  "getLiteralArrayForPredicates st subjectIri predicateIris =
     collectValues (\<lambda>q. isNamedNode (predicate q) \<and>
                         termValue (predicate q) \<in> set predicateIris \<and>
                         isLiteral (object q))
       (getQuadsForSubject st subjectIri)"

definition getIriArrayForPredicates :: "store \<Rightarrow> string \<Rightarrow> string list \<Rightarrow> string list" where
  "getIriArrayForPredicates st subjectIri predicateIris =
     collectValues (\<lambda>q. isNamedNode (predicate q) \<and>
                         termValue (predicate q) \<in> set predicateIris \<and>
                         isNamedNode (object q) \<and> \<not> isBlankNode (object q))
       (getQuadsForSubject st subjectIri)"

definition getAnyArrayForPredicates :: "store \<Rightarrow> string \<Rightarrow> string list \<Rightarrow> string list" where
  "getAnyArrayForPredicates st subjectIri predicateIris =
     collectValues (\<lambda>q. isNamedNode (predicate q) \<and>
                         termValue (predicate q) \<in> set predicateIris \<and>
                         (isLiteral (object q) \<or> isNamedNode (object q)))
       (getQuadsForSubject st subjectIri)"

section \<open>extractOntologyMetadata\<close>

record metadata =
  ontologyIri :: "string option"
  ontologyName :: "string option"
  versionIri :: "string option"
  versionInfo :: "string option"
  description :: "string option"
  license :: "string option"
  rightsHolder :: "string option"

text \<open>\<open>if (!ontologyIri)\<close> holds for \<open>null\<close> and for the empty string.\<close>

definition extractOntologyMetadata :: "store \<Rightarrow> metadata" where
  "extractOntologyMetadata st =
     (let found = getOntologySubjectIri st in
      if found = None \<or> found = Some [] then
        \<lparr> ontologyIri = None, ontologyName = None, versionIri = None, versionInfo = None,
          description = None, license = None, rightsHolder = None \<rparr>
      else
        (let S = orEmpty found in
         \<lparr> ontologyIri = Some S,
           ontologyName = getPreferredLiteralForPredicates st S
             [NS_rdfs @ ''label'', NS_dcterms @ ''title'', NS_dc @ ''title''],
           versionIri = getPreferredIriForPredicates st S
             [NS_owl @ ''versionIRI'', NS_dcterms @ ''hasVersion''],
           versionInfo = getPreferredLiteralForPredicates st S
             [NS_owl @ ''versionInfo'', NS_dcterms @ ''hasVersion''],
           description = getPreferredLiteralForPredicates st S
             [NS_skos @ ''definition'', NS_dcterms @ ''description'', NS_dc @ ''description''],
           license = getPreferredIriForPredicates st S
             [NS_dcterms @ ''license'', NS_dcterms @ ''rights'', NS_dc @ ''rights'',
              NS_dcterms @ ''accessRights''],
           rightsHolder = getPreferredLiteralForPredicates st S
             [NS_dcterms @ ''rightsHolder''] \<rparr>))"

section \<open>toPascalCase\<close>

definition isAlnum :: "char \<Rightarrow> bool" where
  "isAlnum c =
     (c \<in> set ''ABCDEFGHIJKLMNOPQRSTUVWXYZabcdefghijklmnopqrstuvwxyz0123456789'')"

text \<open>\<open>.replace(/[^A-Za-z0-9]+/g, ' ')\<close>: every maximal run of other characters becomes one space.\<close>

function replaceNonAlnumRuns :: "string \<Rightarrow> string" where
  "replaceNonAlnumRuns [] = []"
| "replaceNonAlnumRuns (c # cs) =
     (if isAlnum c then c # replaceNonAlnumRuns cs
      else CHR '' '' # replaceNonAlnumRuns (dropWhile (\<lambda>d. \<not> isAlnum d) cs))"
  by pat_completeness auto
termination
  by (relation "measure length") (auto simp: less_Suc_eq_le length_dropWhile_le)

text \<open>
  \<open>.split(/\s+/)\<close>: the pieces between the maximal runs of white space. The empty
  string gives the one piece \<open>''\<close>, and a run at either end gives an empty piece there.
\<close>

function splitWhiteSpace :: "string \<Rightarrow> string list" where
  "splitWhiteSpace s =
     (let piece = takeWhile (\<lambda>c. \<not> isWhiteSpace c) s;
          rest = dropWhile (\<lambda>c. \<not> isWhiteSpace c) s
      in if rest = [] then [piece]
         else piece # splitWhiteSpace (dropWhile isWhiteSpace rest))"
  by pat_completeness auto
termination
proof (relation "measure length")
  show "wf (measure length)" by simp
next
  fix s :: string and piece rest :: string
  assume r: "rest = dropWhile (\<lambda>c. \<not> isWhiteSpace c) s" and ne: "rest \<noteq> []"
  from ne obtain c cs where rc: "rest = c # cs" by (cases rest) auto
  with r have "dropWhile (\<lambda>c. \<not> isWhiteSpace c) s = c # cs" by simp
  then have "isWhiteSpace c" by (simp add: dropWhile_eq_Cons_conv)
  then have "dropWhile isWhiteSpace rest = dropWhile isWhiteSpace cs"
    using rc by simp
  then have "length (dropWhile isWhiteSpace rest) \<le> length cs"
    by (simp add: length_dropWhile_le)
  also have "length cs < length rest" using rc by simp
  also have "length rest \<le> length s" using r by (simp add: length_dropWhile_le)
  finally show "(dropWhile isWhiteSpace rest, s) \<in> measure length" by simp
qed

declare splitWhiteSpace.simps [simp del]

text \<open>\<open>p.charAt(0).toUpperCase() + p.slice(1)\<close>\<close>

definition capitalize :: "string \<Rightarrow> string" where
  "capitalize p = toUpperCase (take 1 p) @ drop 1 p"

definition pascalParts :: "string \<Rightarrow> string list" where
  "pascalParts name = splitWhiteSpace (trim (replaceNonAlnumRuns name))"

text \<open>\<open>if (!name)\<close> holds for \<open>null\<close>, \<open>undefined\<close> and the empty string.\<close>

definition toPascalCase :: "string option \<Rightarrow> string" where
  "toPascalCase name =
     (if name = None \<or> name = Some [] then ''Ontology''
      else
        (let parts = pascalParts (orEmpty name) in
         if length parts = 0 then ''Ontology''
         else join [] (map capitalize parts)))"

section \<open>shouldIncludeElementSubject\<close>

definition interestingTypes :: "string list" where
  "interestingTypes =
     [NS_owl @ ''Class'', NS_owl @ ''NamedIndividual'', NS_owl @ ''ObjectProperty'',
      NS_owl @ ''DatatypeProperty'', NS_owl @ ''AnnotationProperty'']"

text \<open>\<open>store.getQuads(subject, null, null, null)\<close>: the quads whose subject is that term.\<close>

definition getQuadsOfTerm :: "store \<Rightarrow> rdfTerm \<Rightarrow> quad list" where
  "getQuadsOfTerm st subj = filter (\<lambda>q. subject q = subj) st"

definition shouldIncludeElementSubject :: "store \<Rightarrow> rdfTerm option \<Rightarrow> bool" where
  "shouldIncludeElementSubject st subj =
     (case subj of
        None \<Rightarrow> False
      | Some s \<Rightarrow>
          if \<not> isNamedNode s then False
          else
            (let types = map (\<lambda>q. termValue (object q))
                           (filter (\<lambda>q. isNamedNode (predicate q) \<and>
                                         termValue (predicate q) = NS_rdf @ ''type'' \<and>
                                         isNamedNode (object q))
                                   (getQuadsOfTerm st s))
             in list_ex (\<lambda>t. t \<in> set interestingTypes) types))"

section \<open>buildElementTableModel\<close>

text \<open>
  A row is a JavaScript object with string fields: an association list with distinct
  keys, in the order the fields were created. \<open>assocSet\<close> is the assignment
  \<open>obj[k] = v\<close> (and \<open>Map.prototype.set\<close>): an existing key keeps its place.
\<close>

type_synonym row = "(string \<times> string) list"

record tableModel =
  headers :: "string list"
  keys :: "string list"
  rows :: "row list"

fun assocSet :: "('k \<times> 'v) list \<Rightarrow> 'k \<Rightarrow> 'v \<Rightarrow> ('k \<times> 'v) list" where
  "assocSet [] k v = [(k, v)]"
| "assocSet ((k', v') # m) k v = (if k' = k then (k, v) # m else (k', v') # assocSet m k v)"

text \<open>\<open>r[key] ?? ''\<close>\<close>

definition field :: "row \<Rightarrow> string \<Rightarrow> string" where
  "field r key = orEmpty (map_of r key)"

definition subjectTermMap :: "store \<Rightarrow> (string \<times> rdfTerm) list" where
  "subjectTermMap allQuads =
     fold (\<lambda>q m. if \<not> isBlankNode (subject q) \<and> isNamedNode (subject q)
                  then assocSet m (termValue (subject q)) (subject q) else m)
          allQuads []"

definition elementSubjects :: "store \<Rightarrow> rdfTerm list" where
  "elementSubjects st =
     filter (\<lambda>subj. shouldIncludeElementSubject st (Some subj)) (map snd (subjectTermMap st))"

definition elementRow :: "store \<Rightarrow> rdfTerm \<Rightarrow> row" where
  "elementRow st subj =
     (let iri = termValue subj;
          label = getPreferredLiteralForPredicates st iri
            [NS_rdfs @ ''label'', NS_dcterms @ ''title'', NS_dc @ ''title''];
          typeArr = getIriArrayForPredicates st iri [NS_rdf @ ''type''];
          definitionLit = getPreferredLiteralForPredicates st iri
            [NS_skos @ ''definition'', NS_obo @ ''IAO_0000115'', NS_cco @ ''definition''];
          preferredLabel = getPreferredLiteralForPredicates st iri
            [NS_skos @ ''prefLabel'', NS_obo @ ''IAO_0000111''];
          alternativeLabelArr = getLiteralArrayForPredicates st iri
            [NS_skos @ ''altLabel'', NS_obo @ ''IAO_0000118'', NS_cco @ ''alternative_label''];
          acronymArr = getLiteralArrayForPredicates st iri
            [NS_cco @ ''acronym'', NS_obo @ ''IAO_0000606'', NS_cco2 @ ''ont00001753''];
          subClassOfArr = getIriArrayForPredicates st iri [NS_rdfs @ ''subClassOf''];
          subPropertyOfArr = getIriArrayForPredicates st iri [NS_rdfs @ ''subPropertyOf''];
          definitionSourceArr = getAnyArrayForPredicates st iri
            [NS_dcterms @ ''bibliographicCitation'', NS_obo @ ''IAO_0000119'',
             NS_cco2 @ ''ont00001754'', NS_cco @ ''definition_source'',
             NS_cco2 @ ''ont00001745'', NS_cco @ ''doctrinal_source''];
          isCuratedIn = getPreferredIriForPredicates st iri
            [NS_cco2 @ ''ont00001760'', NS_rdfs @ ''isDefinedBy'']
      in [(''iri'', iri),
          (''label'', orEmpty label),
          (''type'', join ''; '' typeArr),
          (''definition'', orEmpty definitionLit),
          (''preferredLabel'', orEmpty preferredLabel),
          (''alternativeLabel'', join ''; '' alternativeLabelArr),
          (''acronym'', join ''; '' acronymArr),
          (''subClassOf'', join ''; '' subClassOfArr),
          (''subPropertyOf'', join ''; '' subPropertyOfArr),
          (''definitionSource'', join ''; '' definitionSourceArr),
          (''isCuratedIn'', orEmpty isCuratedIn)])"

definition allHeaders :: "string list" where
  "allHeaders =
     [''iri'', ''label'', ''type'', ''definition'', ''preferred label'', ''alternative label'',
      ''acronym'', ''rdfs:subClassOf'', ''rdfs:subPropertyOf'', ''definition source'',
      ''is curated in'']"

definition allKeys :: "string list" where
  "allKeys =
     [''iri'', ''label'', ''type'', ''definition'', ''preferredLabel'', ''alternativeLabel'',
      ''acronym'', ''subClassOf'', ''subPropertyOf'', ''definitionSource'', ''isCuratedIn'']"

definition keepFlags :: "row list \<Rightarrow> bool list" where
  "keepFlags rws =
     map (\<lambda>key. if key = ''iri'' then True
                 else list_ex (\<lambda>r. trim (field r key) \<noteq> []) rws) allKeys"

text \<open>\<open>xs.filter((_, i) => keepFlags[i])\<close>; a flag read past the end is \<open>undefined\<close>, falsy.\<close>

definition filterByFlags :: "'a list \<Rightarrow> bool list \<Rightarrow> 'a list" where
  "filterByFlags xs flags =
     map (\<lambda>i. xs ! i) (filter (\<lambda>i. i < length flags \<and> flags ! i) [0..<length xs])"

definition pruneRow :: "string list \<Rightarrow> row \<Rightarrow> row" where
  "pruneRow ks r = fold (\<lambda>k obj. assocSet obj k (field r k)) ks []"

definition buildElementTableModel :: "store \<Rightarrow> tableModel" where
  "buildElementTableModel st =
     (let rws = map (elementRow st) (elementSubjects st);
          flags = keepFlags rws;
          hs = filterByFlags allHeaders flags;
          ks = filterByFlags allKeys flags;
          prunedRows = map (pruneRow ks) rws
      in \<lparr> headers = hs, keys = ks, rows = prunedRows \<rparr>)"

section \<open>filterAndSortRows\<close>

text \<open>\<open>Object.values(row)\<close>\<close>

definition objectValues :: "row \<Rightarrow> string list" where
  "objectValues r = map snd r"

text \<open>The filter's predicate, \<open>q\<close> being the query already in lower case.\<close>

definition rowMatches :: "string \<Rightarrow> row \<Rightarrow> bool" where
  "rowMatches q r = list_ex (\<lambda>v. includesStr (toLowerCase v) q) (objectValues r)"

text \<open>
  \<open>String.prototype.localeCompare\<close> belongs to the platform and depends on its locale
  data; it is the parameter \<open>localeCompare\<close> of everything below, a function to the
  integers of which only the sign is used. The comparator handed to \<open>sort\<close>:
\<close>

definition rowComparator ::
  "(string \<Rightarrow> string \<Rightarrow> int) \<Rightarrow> string \<Rightarrow> string \<Rightarrow> row \<Rightarrow> row \<Rightarrow> int" where
  "rowComparator localeCompare key sortDirection a b =
     (let va = field a key; vb = field b key; cmp = localeCompare va vb
      in if sortDirection = ''asc'' then cmp else - cmp)"

text \<open>
  \<open>Array.prototype.sort\<close> is stable. For a consistent comparator its result is the one
  stable ordering of the input, which insertion from the right computes.
\<close>

fun insertBy :: "('a \<Rightarrow> 'a \<Rightarrow> int) \<Rightarrow> 'a \<Rightarrow> 'a list \<Rightarrow> 'a list" where
  "insertBy cmp x [] = [x]"
| "insertBy cmp x (y # ys) = (if cmp x y \<le> 0 then x # y # ys else y # insertBy cmp x ys)"

definition sortBy :: "('a \<Rightarrow> 'a \<Rightarrow> int) \<Rightarrow> 'a list \<Rightarrow> 'a list" where
  "sortBy cmp xs = foldr (insertBy cmp) xs []"

text \<open>\<open>xs[i]\<close> for an integer \<open>i\<close>, \<open>undefined\<close> out of range.\<close>

definition at :: "'a list \<Rightarrow> int \<Rightarrow> 'a option" where
  "at xs i = (if 0 \<le> i \<and> i < int (length xs) then Some (xs ! nat i) else None)"

text \<open>The default value of the parameter \<open>sortDirection\<close>, taken when it is \<open>undefined\<close>.\<close>

definition directionOrDefault :: "string option \<Rightarrow> string" where
  "directionOrDefault d = (case d of None \<Rightarrow> ''asc'' | Some s \<Rightarrow> s)"

definition filterAndSortRows ::
  "(string \<Rightarrow> string \<Rightarrow> int) \<Rightarrow> tableModel \<Rightarrow> string option \<Rightarrow> int option \<Rightarrow> string option
     \<Rightarrow> row list" where
  "filterAndSortRows localeCompare model query sortIndex sortDirection =
     (let q = toLowerCase (orEmpty query);
          filtered = (if q \<noteq> [] then filter (rowMatches q) (rows model) else rows model)
      in case sortIndex of
           None \<Rightarrow> filtered
         | Some i \<Rightarrow>
             if i < 0 \<or> i \<ge> int (length (headers model)) then filtered
             else
               (case at (keys model) i of
                  None \<Rightarrow> filtered
                | Some key \<Rightarrow>
                    if key = [] then filtered
                    else sortBy (rowComparator localeCompare key
                                   (directionOrDefault sortDirection)) filtered))"

text \<open>
  Two notions for stating what the function returns: the value of the variable
  \<open>filtered\<close> before the sorting step, and the order that sorting by a key in a
  direction is meant to establish.
\<close>

definition filteredRows :: "tableModel \<Rightarrow> string option \<Rightarrow> row list" where
  "filteredRows model query =
     (if toLowerCase (orEmpty query) \<noteq> []
      then filter (rowMatches (toLowerCase (orEmpty query))) (rows model)
      else rows model)"

definition orderedBy ::
  "(string \<Rightarrow> string \<Rightarrow> int) \<Rightarrow> string \<Rightarrow> string \<Rightarrow> row list \<Rightarrow> bool" where
  "orderedBy localeCompare key sortDirection rs =
     sorted_wrt (\<lambda>a b. if sortDirection = ''asc''
                         then localeCompare (field a key) (field b key) \<le> 0
                         else 0 \<le> localeCompare (field a key) (field b key)) rs"

text \<open>The conditions under which the function returns before the sorting step.\<close>

definition sortSkipped :: "tableModel \<Rightarrow> int option \<Rightarrow> bool" where
  "sortSkipped model sortIndex =
     (case sortIndex of
        None \<Rightarrow> True
      | Some i \<Rightarrow> i < 0 \<or> int (length (headers model)) \<le> i \<or>
                  at (keys model) i = None \<or> at (keys model) i = Some [])"

section \<open>filterAndSortRows on shared arrays\<close>

text \<open>
  Whether the returned sequence is a new one depends on which array object the function
  returns. Here the arrays live in a store of objects, addressed by their index; a model
  holds the addresses of its three arrays; a new array takes the next free address.
  The function returns the address of its result and the store it leaves, or \<open>None\<close>
  when the model's addresses do not hold arrays of the right kind.
\<close>

datatype jsArray = StringArray "string list" | RowArray "row list"

type_synonym heap = "jsArray list"

record modelRef =
  headersRef :: nat
  keysRef :: nat
  rowsRef :: nat

definition alloc :: "heap \<Rightarrow> jsArray \<Rightarrow> nat \<times> heap" where
  "alloc h a = (length h, h @ [a])"

definition readStrings :: "heap \<Rightarrow> nat \<Rightarrow> string list option" where
  "readStrings h a =
     (if a < length h then (case h ! a of StringArray xs \<Rightarrow> Some xs | RowArray rs \<Rightarrow> None)
      else None)"

definition readRows :: "heap \<Rightarrow> nat \<Rightarrow> row list option" where
  "readRows h a =
     (if a < length h then (case h ! a of RowArray rs \<Rightarrow> Some rs | StringArray xs \<Rightarrow> None)
      else None)"

text \<open>The model as a value, read from the store.\<close>

definition readModel :: "heap \<Rightarrow> modelRef \<Rightarrow> tableModel option" where
  "readModel h m =
     (case (readStrings h (headersRef m), readStrings h (keysRef m), readRows h (rowsRef m)) of
        (Some hs, Some ks, Some rs) \<Rightarrow> Some \<lparr> headers = hs, keys = ks, rows = rs \<rparr>
      | _ \<Rightarrow> None)"

text \<open>
  \<open>filtered\<close> starts as the reference \<open>model.rows\<close>; \<open>filter\<close> allocates a new array;
  \<open>[...filtered]\<close> allocates a copy, which \<open>sort\<close> then orders in place.
\<close>

definition filterAndSortRowsRef ::
  "(string \<Rightarrow> string \<Rightarrow> int) \<Rightarrow> heap \<Rightarrow> modelRef \<Rightarrow> string option \<Rightarrow> int option
     \<Rightarrow> string option \<Rightarrow> (nat \<times> heap) option" where
  "filterAndSortRowsRef localeCompare h m query sortIndex sortDirection =
     (case readModel h m of
        None \<Rightarrow> None
      | Some model \<Rightarrow>
          (let q = toLowerCase (orEmpty query);
               (filtered, h1) =
                  (if q \<noteq> [] then alloc h (RowArray (filter (rowMatches q) (rows model)))
                   else (rowsRef m, h))
           in case sortIndex of
                None \<Rightarrow> Some (filtered, h1)
              | Some i \<Rightarrow>
                  if i < 0 \<or> i \<ge> int (length (headers model)) then Some (filtered, h1)
                  else
                    (case at (keys model) i of
                       None \<Rightarrow> Some (filtered, h1)
                     | Some key \<Rightarrow>
                         if key = [] then Some (filtered, h1)
                         else
                           (case readRows h1 filtered of
                              None \<Rightarrow> None
                            | Some elems \<Rightarrow>
                                (let (sorted, h2) = alloc h1 (RowArray elems);
                                     h3 = h2[sorted := RowArray
                                            (sortBy (rowComparator localeCompare key
                                               (directionOrDefault sortDirection)) elems)]
                                 in Some (sorted, h3))))))"

section \<open>Example inputs\<close>

text \<open>
  A store with one class and its parent. The class has an \<open>rdfs:label\<close> that is an
  IRI, a \<open>dcterms:title\<close> that is the empty literal, a \<open>dc:title\<close> with text, an
  alternative label of blanks only and a superclass; a blank node is typed as a class
  too. Nothing is typed as an ontology.
\<close>

definition exClassA :: rdfTerm where
  "exClassA = NamedNode ''http://example.org/ClassA''"

definition exParent :: rdfTerm where
  "exParent = NamedNode ''http://example.org/ParentClass''"

definition exampleStore :: store where
  "exampleStore =
     [\<lparr> subject = exClassA, predicate = NamedNode (NS_rdf @ ''type''),
        object = NamedNode (NS_owl @ ''Class'') \<rparr>,
      \<lparr> subject = exClassA, predicate = NamedNode (NS_rdfs @ ''label''),
        object = NamedNode ''http://example.org/label'' \<rparr>,
      \<lparr> subject = exClassA, predicate = NamedNode (NS_dcterms @ ''title''),
        object = Literal [] [] \<rparr>,
      \<lparr> subject = exClassA, predicate = NamedNode (NS_dc @ ''title''),
        object = Literal ''Class A'' ''en'' \<rparr>,
      \<lparr> subject = exClassA, predicate = NamedNode (NS_skos @ ''altLabel''),
        object = Literal ''  '' [] \<rparr>,
      \<lparr> subject = exClassA, predicate = NamedNode (NS_rdfs @ ''subClassOf''),
        object = exParent \<rparr>,
      \<lparr> subject = BlankNode ''b0'', predicate = NamedNode (NS_rdf @ ''type''),
        object = NamedNode (NS_owl @ ''Class'') \<rparr>,
      \<lparr> subject = exParent, predicate = NamedNode (NS_rdfs @ ''label''),
        object = Literal ''Parent'' [] \<rparr>]"

text \<open>
  The model of the repository's test for \<open>filterAndSortRows\<close>; a model whose second
  key is the empty string; a model whose one row is the object without fields; the
  first model laid out in a store of arrays; and a
  comparison by code units with the sign convention of \<open>localeCompare\<close>, for
  evaluating examples.
\<close>

definition zebraModel :: tableModel where
  "zebraModel =
     \<lparr> headers = [''iri'', ''label''],
       keys = [''iri'', ''label''],
       rows = [[(''iri'', ''http://example.org/a''), (''label'', ''Zebra'')],
               [(''iri'', ''http://example.org/b''), (''label'', ''Apple'')],
               [(''iri'', ''http://example.org/c''), (''label'', ''Banana'')]] \<rparr>"

definition emptyKeyModel :: tableModel where
  "emptyKeyModel =
     \<lparr> headers = [''iri'', ''note''],
       keys = [''iri'', []],
       rows = [[(''iri'', ''http://example.org/a''), ([], ''2'')],
               [(''iri'', ''http://example.org/b''), ([], ''1'')]] \<rparr>"

definition fieldlessModel :: tableModel where
  "fieldlessModel = \<lparr> headers = [''iri''], keys = [''iri''], rows = [[]] \<rparr>"

definition zebraHeap :: heap where
  "zebraHeap = [StringArray (headers zebraModel), StringArray (keys zebraModel),
                RowArray (rows zebraModel)]"

definition zebraRef :: modelRef where
  "zebraRef = \<lparr> headersRef = 0, keysRef = 1, rowsRef = 2 \<rparr>"

definition codeUnitCompare :: "string \<Rightarrow> string \<Rightarrow> int" where
  "codeUnitCompare a b = (if a < b then - 1 else if a = b then 0 else 1)"

section \<open>Properties\<close>

subsection \<open>Strings\<close>

lemma toLowerCase_Nil_iff: "toLowerCase s = [] \<longleftrightarrow> s = []"
  by (simp add: toLowerCase_def)

lemma startsWith_iff: "startsWith s q \<longleftrightarrow> (\<exists>post. s = q @ post)"
  by (induction s q rule: startsWith.induct) auto

lemma includesStr_iff: "includesStr s q \<longleftrightarrow> (\<exists>pre post. s = pre @ q @ post)"
proof (induction s)
  case Nil
  then show ?case by auto
next
  case (Cons c cs)
  show ?case
  proof
    assume "includesStr (c # cs) q"
    then consider "startsWith (c # cs) q" | "includesStr cs q" by auto
    then show "\<exists>pre post. c # cs = pre @ q @ post"
    proof cases
      case 1
      then obtain post where "c # cs = q @ post" by (auto simp: startsWith_iff)
      then have "c # cs = [] @ q @ post" by simp
      then show ?thesis by blast
    next
      case 2
      with Cons.IH obtain pre post where "cs = pre @ q @ post" by blast
      then have "c # cs = (c # pre) @ q @ post" by simp
      then show ?thesis by blast
    qed
  next
    assume "\<exists>pre post. c # cs = pre @ q @ post"
    then obtain pre post where eq: "c # cs = pre @ q @ post" by blast
    show "includesStr (c # cs) q"
    proof (cases pre)
      case Nil
      with eq have "startsWith (c # cs) q" by (auto simp: startsWith_iff)
      then show ?thesis by simp
    next
      case (Cons d pre')
      with eq have "cs = pre' @ q @ post" by simp
      with Cons.IH have "includesStr cs q" by blast
      then show ?thesis by simp
    qed
  qed
qed

text \<open>\<open>trim\<close> leaves nothing exactly of the strings made of white space only.\<close>

lemma trim_Nil_iff: "trim s = [] \<longleftrightarrow> (\<forall>c\<in>set s. isWhiteSpace c)"
proof -
  have "trim s = [] \<longleftrightarrow> (\<forall>c\<in>set (dropWhile isWhiteSpace s). isWhiteSpace c)"
    by (simp add: trim_def)
  also have "\<dots> \<longleftrightarrow> dropWhile isWhiteSpace s = []"
  proof
    assume a: "\<forall>c\<in>set (dropWhile isWhiteSpace s). isWhiteSpace c"
    show "dropWhile isWhiteSpace s = []"
    proof (rule ccontr)
      assume "dropWhile isWhiteSpace s \<noteq> []"
      then obtain c cs where eq: "dropWhile isWhiteSpace s = c # cs"
        by (cases "dropWhile isWhiteSpace s") auto
      then have "\<not> isWhiteSpace c" by (simp add: dropWhile_eq_Cons_conv)
      with a eq show False by simp
    qed
  qed (auto dest: set_dropWhileD)
  also have "\<dots> \<longleftrightarrow> (\<forall>c\<in>set s. isWhiteSpace c)"
    by simp
  finally show ?thesis .
qed

lemma nonblank_iff: "(\<exists>c\<in>set v. \<not> isWhiteSpace c) = (trim v \<noteq> [])"
  by (simp add: trim_Nil_iff)

subsection \<open>detectRdfFormatFromFilename\<close>

lemma detect_cases:
  "detectRdfFormatFromFilename filename =
     (let lower = toLowerCase (orEmpty filename) in
      if endsWith lower ''.ttl'' \<or> endsWith lower ''.n3'' then ''text/turtle''
      else if endsWith lower ''.nt'' then ''application/n-triples''
      else if endsWith lower ''.nq'' then ''application/n-quads''
      else if endsWith lower ''.trig'' then ''application/trig''
      else ''text/turtle'')"
  by (simp add: detectRdfFormatFromFilename_def)

lemma endsWith_last:
  assumes "endsWith s suf" and "suf \<noteq> []"
  shows "s \<noteq> [] \<and> last s = last suf"
proof -
  from assms(2) obtain q qs where q: "rev suf = q # qs" by (cases "rev suf") auto
  with assms(1) obtain cs where c: "rev s = q # cs"
    unfolding endsWith_def by (cases "rev s") auto
  from q c have "hd (rev s) = hd (rev suf)" by simp
  moreover from c have "s \<noteq> []" by auto
  ultimately show ?thesis using assms(2) by (simp add: hd_rev)
qed

text \<open>
  Claim C8. For every filename (\<open>null\<close> included), \<open>detectRdfFormatFromFilename\<close>
  returns \<open>text/turtle\<close> when the name, in lower case, ends in \<open>.ttl\<close> or \<open>.n3\<close>,
  \<open>application/n-triples\<close> for \<open>.nt\<close>, \<open>application/n-quads\<close> for \<open>.nq\<close>,
  \<open>application/trig\<close> for \<open>.trig\<close>, and \<open>text/turtle\<close> for every other name. The
  function is total: no input makes it fail.
\<close>

theorem detectRdfFormatFromFilename_by_extension:
  "(endsWith (toLowerCase (orEmpty filename)) ''.ttl'' \<or>
    endsWith (toLowerCase (orEmpty filename)) ''.n3''
      \<longrightarrow> detectRdfFormatFromFilename filename = ''text/turtle'') \<and>
   (endsWith (toLowerCase (orEmpty filename)) ''.nt''
      \<longrightarrow> detectRdfFormatFromFilename filename = ''application/n-triples'') \<and>
   (endsWith (toLowerCase (orEmpty filename)) ''.nq''
      \<longrightarrow> detectRdfFormatFromFilename filename = ''application/n-quads'') \<and>
   (endsWith (toLowerCase (orEmpty filename)) ''.trig''
      \<longrightarrow> detectRdfFormatFromFilename filename = ''application/trig'') \<and>
   (\<not> endsWith (toLowerCase (orEmpty filename)) ''.ttl'' \<and>
    \<not> endsWith (toLowerCase (orEmpty filename)) ''.n3'' \<and>
    \<not> endsWith (toLowerCase (orEmpty filename)) ''.nt'' \<and>
    \<not> endsWith (toLowerCase (orEmpty filename)) ''.nq'' \<and>
    \<not> endsWith (toLowerCase (orEmpty filename)) ''.trig''
      \<longrightarrow> detectRdfFormatFromFilename filename = ''text/turtle'')"
proof -
  let ?l = "toLowerCase (orEmpty filename)"
  have ttl: "endsWith ?l ''.ttl'' \<Longrightarrow> last ?l = CHR ''l''"
    and n3: "endsWith ?l ''.n3'' \<Longrightarrow> last ?l = CHR ''3''"
    and nt: "endsWith ?l ''.nt'' \<Longrightarrow> last ?l = CHR ''t''"
    and nq: "endsWith ?l ''.nq'' \<Longrightarrow> last ?l = CHR ''q''"
    and trig: "endsWith ?l ''.trig'' \<Longrightarrow> last ?l = CHR ''g''"
    by (auto dest: endsWith_last)
  show ?thesis
    unfolding detect_cases Let_def
    using ttl n3 nt nq trig by auto
qed

theorem detectRdfFormatFromFilename_by_extension_witness:
  "detectRdfFormatFromFilename (Some ''example.ttl'') = ''text/turtle'' \<and>
   detectRdfFormatFromFilename (Some ''notes.N3'') = ''text/turtle'' \<and>
   detectRdfFormatFromFilename (Some ''data.nt'') = ''application/n-triples'' \<and>
   detectRdfFormatFromFilename (Some ''Quads.NQ'') = ''application/n-quads'' \<and>
   detectRdfFormatFromFilename (Some ''graphs.trig'') = ''application/trig'' \<and>
   detectRdfFormatFromFilename (Some ''weird.ext'') = ''text/turtle'' \<and>
   detectRdfFormatFromFilename None = ''text/turtle''"
proof (intro conjI)
  have "endsWith (toLowerCase (orEmpty (Some ''example.ttl''))) ''.ttl''"
    by code_simp
  then show "detectRdfFormatFromFilename (Some ''example.ttl'') = ''text/turtle''"
    by (intro detectRdfFormatFromFilename_by_extension
                [of "Some ''example.ttl''", THEN conjunct1, THEN mp] disjI1)
next
  have "endsWith (toLowerCase (orEmpty (Some ''notes.N3''))) ''.n3''"
    by code_simp
  then show "detectRdfFormatFromFilename (Some ''notes.N3'') = ''text/turtle''"
    by (intro detectRdfFormatFromFilename_by_extension
                [of "Some ''notes.N3''", THEN conjunct1, THEN mp] disjI2)
next
  have "endsWith (toLowerCase (orEmpty (Some ''data.nt''))) ''.nt''"
    by code_simp
  then show "detectRdfFormatFromFilename (Some ''data.nt'') = ''application/n-triples''"
    by (rule detectRdfFormatFromFilename_by_extension
                [of "Some ''data.nt''", THEN conjunct2, THEN conjunct1, THEN mp])
next
  have "endsWith (toLowerCase (orEmpty (Some ''Quads.NQ''))) ''.nq''"
    by code_simp
  then show "detectRdfFormatFromFilename (Some ''Quads.NQ'') = ''application/n-quads''"
    by (rule detectRdfFormatFromFilename_by_extension
                [of "Some ''Quads.NQ''", THEN conjunct2, THEN conjunct2, THEN conjunct1, THEN mp])
next
  have "endsWith (toLowerCase (orEmpty (Some ''graphs.trig''))) ''.trig''"
    by code_simp
  then show "detectRdfFormatFromFilename (Some ''graphs.trig'') = ''application/trig''"
    by (rule detectRdfFormatFromFilename_by_extension
                [of "Some ''graphs.trig''", THEN conjunct2, THEN conjunct2, THEN conjunct2,
                 THEN conjunct1, THEN mp])
next
  let ?l = "toLowerCase (orEmpty (Some ''weird.ext''))"
  have "\<not> endsWith ?l ''.ttl'' \<and> \<not> endsWith ?l ''.n3'' \<and> \<not> endsWith ?l ''.nt'' \<and>
        \<not> endsWith ?l ''.nq'' \<and> \<not> endsWith ?l ''.trig''"
    by code_simp
  then show "detectRdfFormatFromFilename (Some ''weird.ext'') = ''text/turtle''"
    by (rule detectRdfFormatFromFilename_by_extension
                [of "Some ''weird.ext''", THEN conjunct2, THEN conjunct2, THEN conjunct2,
                 THEN conjunct2, THEN mp])
next
  let ?l = "toLowerCase (orEmpty None)"
  have "\<not> endsWith ?l ''.ttl'' \<and> \<not> endsWith ?l ''.n3'' \<and> \<not> endsWith ?l ''.nt'' \<and>
        \<not> endsWith ?l ''.nq'' \<and> \<not> endsWith ?l ''.trig''"
    by code_simp
  then show "detectRdfFormatFromFilename None = ''text/turtle''"
    by (rule detectRdfFormatFromFilename_by_extension
                [of None, THEN conjunct2, THEN conjunct2, THEN conjunct2,
                 THEN conjunct2, THEN mp])
qed

subsection \<open>pickBestLiteral\<close>

lemma find_filter_implied:
  "(\<And>x. P x \<Longrightarrow> Q x) \<Longrightarrow> find P (filter Q xs) = find P xs"
  by (induction xs) auto

lemma pickBestLiteral_unfold:
  "pickBestLiteral literals =
     (if literals = [] then None
      else case find (\<lambda>l. toLowerCase (termLanguage l) = ''en'') literals of
             Some en \<Rightarrow> Some en
           | None \<Rightarrow> (case find (\<lambda>l. termLanguage l = []) literals of
                        Some noLang \<Rightarrow> Some noLang
                      | None \<Rightarrow> Some (hd literals)))"
proof -
  have eq: "find (\<lambda>l. toLowerCase (termLanguage l) = ''en'')
          (filter (\<lambda>l. termLanguage l \<noteq> []) literals)
        = find (\<lambda>l. toLowerCase (termLanguage l) = ''en'') literals"
    by (rule find_filter_implied) (auto simp: toLowerCase_def)
  show ?thesis
  proof (cases literals)
    case Nil
    then show ?thesis by (simp add: pickBestLiteral_def)
  next
    case (Cons a list)
    show ?thesis
      unfolding pickBestLiteral_def Let_def eq
      by (simp add: Cons split: option.splits)
  qed
qed

lemma find_first_index:
  "\<exists>x\<in>set xs. P x \<Longrightarrow>
   \<exists>i<length xs. P (xs ! i) \<and> (\<forall>j<i. \<not> P (xs ! j)) \<and> find P xs = Some (xs ! i)"
proof -
  assume "\<exists>x\<in>set xs. P x"
  then obtain x where "find P xs = Some x"
    by (cases "find P xs") (auto simp: find_None_iff)
  then show ?thesis by (auto simp: find_Some_iff)
qed

text \<open>
  Claim C2. \<open>pickBestLiteral\<close> returns nothing for the empty list; the first literal
  whose language tag is \<open>en\<close> up to case, when there is one; otherwise the first literal
  without a language tag, when there is one; otherwise the first literal of the list.
\<close>

theorem pickBestLiteral_policy:
  "(literals = [] \<longrightarrow> pickBestLiteral literals = None) \<and>
   ((\<exists>l\<in>set literals. toLowerCase (termLanguage l) = ''en'') \<longrightarrow>
      (\<exists>i<length literals.
          toLowerCase (termLanguage (literals ! i)) = ''en'' \<and>
          (\<forall>j<i. toLowerCase (termLanguage (literals ! j)) \<noteq> ''en'') \<and>
          pickBestLiteral literals = Some (literals ! i))) \<and>
   ((\<forall>l\<in>set literals. toLowerCase (termLanguage l) \<noteq> ''en'') \<and>
    (\<exists>l\<in>set literals. termLanguage l = []) \<longrightarrow>
      (\<exists>i<length literals.
          termLanguage (literals ! i) = [] \<and>
          (\<forall>j<i. termLanguage (literals ! j) \<noteq> []) \<and>
          pickBestLiteral literals = Some (literals ! i))) \<and>
   (literals \<noteq> [] \<and>
    (\<forall>l\<in>set literals. toLowerCase (termLanguage l) \<noteq> ''en'') \<and>
    (\<forall>l\<in>set literals. termLanguage l \<noteq> []) \<longrightarrow>
      pickBestLiteral literals = Some (literals ! 0))"
proof (intro conjI impI)
  show "pickBestLiteral literals = None" if "literals = []"
    using that by (simp add: pickBestLiteral_def)
next
  assume en: "\<exists>l\<in>set literals. toLowerCase (termLanguage l) = ''en''"
  then have ne: "literals \<noteq> []" by auto
  from find_first_index [of literals "\<lambda>l. toLowerCase (termLanguage l) = ''en''", OF en]
  obtain i where i: "i < length literals"
      "toLowerCase (termLanguage (literals ! i)) = ''en''"
      "\<forall>j<i. toLowerCase (termLanguage (literals ! j)) \<noteq> ''en''"
      "find (\<lambda>l. toLowerCase (termLanguage l) = ''en'') literals = Some (literals ! i)"
    by blast
  have "pickBestLiteral literals = Some (literals ! i)"
    using ne i(4) by (simp add: pickBestLiteral_unfold)
  with i show "\<exists>i<length literals.
          toLowerCase (termLanguage (literals ! i)) = ''en'' \<and>
          (\<forall>j<i. toLowerCase (termLanguage (literals ! j)) \<noteq> ''en'') \<and>
          pickBestLiteral literals = Some (literals ! i)" by blast
next
  assume h: "(\<forall>l\<in>set literals. toLowerCase (termLanguage l) \<noteq> ''en'') \<and>
    (\<exists>l\<in>set literals. termLanguage l = [])"
  then have ne: "literals \<noteq> []" by auto
  from h have noen: "find (\<lambda>l. toLowerCase (termLanguage l) = ''en'') literals = None"
    by (simp add: find_None_iff)
  from h have "\<exists>l\<in>set literals. termLanguage l = []" by simp
  from find_first_index [of literals "\<lambda>l. termLanguage l = []", OF this]
  obtain i where i: "i < length literals"
      "termLanguage (literals ! i) = []"
      "\<forall>j<i. termLanguage (literals ! j) \<noteq> []"
      "find (\<lambda>l. termLanguage l = []) literals = Some (literals ! i)"
    by blast
  have "pickBestLiteral literals = Some (literals ! i)"
    using ne noen i(4) by (simp add: pickBestLiteral_unfold)
  with i show "\<exists>i<length literals.
          termLanguage (literals ! i) = [] \<and>
          (\<forall>j<i. termLanguage (literals ! j) \<noteq> []) \<and>
          pickBestLiteral literals = Some (literals ! i)" by blast
next
  assume h: "literals \<noteq> [] \<and>
    (\<forall>l\<in>set literals. toLowerCase (termLanguage l) \<noteq> ''en'') \<and>
    (\<forall>l\<in>set literals. termLanguage l \<noteq> [])"
  then have "find (\<lambda>l. toLowerCase (termLanguage l) = ''en'') literals = None"
    and "find (\<lambda>l. termLanguage l = []) literals = None"
    by (simp_all add: find_None_iff)
  with h show "pickBestLiteral literals = Some (literals ! 0)"
    by (simp add: pickBestLiteral_unfold hd_conv_nth)
qed

lemmas lower_simps = toLowerCase_def lowerChar_def upperLetters_def lowerLetters_def

theorem pickBestLiteral_policy_witness:
  "pickBestLiteral [] = None \<and>
   pickBestLiteral [Literal ''French'' ''fr'', Literal ''Plain'' [], Literal ''English'' ''EN'']
     = Some (Literal ''English'' ''EN'') \<and>
   pickBestLiteral [Literal ''Deutsch'' ''de'', Literal ''Nederlands'' ''nl'', Literal ''Plain'' []]
     = Some (Literal ''Plain'' []) \<and>
   pickBestLiteral [Literal ''Francais'' ''fr'', Literal ''Espanol'' ''es'']
     = Some (Literal ''Francais'' ''fr'')"
proof (intro conjI)
  show "pickBestLiteral [] = None"
    by (rule pickBestLiteral_policy [of "[]", THEN conjunct1, THEN mp]) simp
next
  let ?L = "[Literal ''French'' ''fr'', Literal ''Plain'' [], Literal ''English'' ''EN'']"
  have h: "\<exists>l\<in>set ?L. toLowerCase (termLanguage l) = ''en''"
    by (simp add: lower_simps)
  obtain i where i: "i < length ?L" "toLowerCase (termLanguage (?L ! i)) = ''en''"
      "pickBestLiteral ?L = Some (?L ! i)"
    using pickBestLiteral_policy [of ?L, THEN conjunct2, THEN conjunct1, THEN mp, OF h]
    by (elim exE conjE) (rule that)
  from i(1) have "i = 0 \<or> i = 1 \<or> i = 2" by auto
  with i(2) have "i = 2" by (auto simp: lower_simps)
  with i(3) show "pickBestLiteral ?L = Some (Literal ''English'' ''EN'')" by simp
next
  let ?L = "[Literal ''Deutsch'' ''de'', Literal ''Nederlands'' ''nl'', Literal ''Plain'' []]"
  have h: "(\<forall>l\<in>set ?L. toLowerCase (termLanguage l) \<noteq> ''en'') \<and>
        (\<exists>l\<in>set ?L. termLanguage l = [])"
    by (simp add: lower_simps)
  obtain i where i: "i < length ?L" "termLanguage (?L ! i) = []"
      "pickBestLiteral ?L = Some (?L ! i)"
    using pickBestLiteral_policy [of ?L, THEN conjunct2, THEN conjunct2, THEN conjunct1,
                                  THEN mp, OF h]
    by (elim exE conjE) (rule that)
  from i(1) have "i = 0 \<or> i = 1 \<or> i = 2" by auto
  with i(2) have "i = 2" by auto
  with i(3) show "pickBestLiteral ?L = Some (Literal ''Plain'' [])" by simp
next
  let ?L = "[Literal ''Francais'' ''fr'', Literal ''Espanol'' ''es'']"
  have h: "?L \<noteq> [] \<and> (\<forall>l\<in>set ?L. toLowerCase (termLanguage l) \<noteq> ''en'') \<and>
        (\<forall>l\<in>set ?L. termLanguage l \<noteq> [])"
    by (simp add: lower_simps)
  show "pickBestLiteral ?L = Some (Literal ''Francais'' ''fr'')"
    using pickBestLiteral_policy [of ?L, THEN conjunct2, THEN conjunct2, THEN conjunct2,
                                  THEN mp, OF h]
    by simp
qed

subsection \<open>toPascalCase\<close>

lemma splitWhiteSpace_not_Nil: "splitWhiteSpace s \<noteq> []"
  by (subst splitWhiteSpace.simps) (simp add: Let_def)

lemma splitWhiteSpace_Nil: "splitWhiteSpace [] = [[]]"
  by (subst splitWhiteSpace.simps) simp

lemma replaceNonAlnumRuns_no_alnum:
  assumes "s \<noteq> []" and "\<forall>c\<in>set s. \<not> isAlnum c"
  shows "replaceNonAlnumRuns s = '' ''"
proof -
  from assms obtain c cs where s: "s = c # cs" by (cases s) auto
  with assms have c: "\<not> isAlnum c" and cs: "\<forall>d\<in>set cs. \<not> isAlnum d" by auto
  from cs have d: "dropWhile (\<lambda>d. \<not> isAlnum d) cs = []" by simp
  have "replaceNonAlnumRuns (c # cs) = '' ''" using c by (simp add: d)
  with s show ?thesis by simp
qed

lemma trim_space: "trim '' '' = []"
  by (simp add: trim_def isWhiteSpace_def)

lemma pascalParts_no_alnum:
  "s \<noteq> [] \<Longrightarrow> \<forall>c\<in>set s. \<not> isAlnum c \<Longrightarrow> pascalParts s = [[]]"
  by (simp add: pascalParts_def replaceNonAlnumRuns_no_alnum trim_space splitWhiteSpace_Nil)

text \<open>
  Claim C10. \<open>toPascalCase\<close> returns \<open>Ontology\<close> for \<open>null\<close>, \<open>undefined\<close> and the
  empty string. For every other name the list of parts is never empty, so the guard
  \<open>parts.length === 0\<close> is never taken and the result is the concatenation of the
  capitalised parts; for a non-empty name without any character of \<open>[A-Za-z0-9]\<close>
  that concatenation is the empty string.
\<close>

theorem toPascalCase_fallback_only_without_name:
  "toPascalCase None = ''Ontology'' \<and>
   toPascalCase (Some []) = ''Ontology'' \<and>
   pascalParts s \<noteq> [] \<and>
   (s \<noteq> [] \<longrightarrow> toPascalCase (Some s) = join [] (map capitalize (pascalParts s))) \<and>
   (s \<noteq> [] \<and> (\<forall>c\<in>set s. \<not> isAlnum c) \<longrightarrow> toPascalCase (Some s) = [])"
proof (intro conjI impI)
  show "toPascalCase None = ''Ontology''" by (simp add: toPascalCase_def)
  show "toPascalCase (Some []) = ''Ontology''" by (simp add: toPascalCase_def)
  show parts: "pascalParts s \<noteq> []"
    by (simp add: pascalParts_def splitWhiteSpace_not_Nil)
  show "toPascalCase (Some s) = join [] (map capitalize (pascalParts s))" if "s \<noteq> []"
    using that parts by (simp add: toPascalCase_def orEmpty_def Let_def)
  show "toPascalCase (Some s) = []" if "s \<noteq> [] \<and> (\<forall>c\<in>set s. \<not> isAlnum c)"
    using that
    by (simp add: toPascalCase_def orEmpty_def Let_def pascalParts_no_alnum capitalize_def
                  toUpperCase_def)
qed

theorem toPascalCase_fallback_only_without_name_witness:
  "toPascalCase (Some ''---'') = [] \<and>
   toPascalCase (Some ''---'') = join [] (map capitalize (pascalParts ''---''))"
proof -
  have h: "''---'' \<noteq> [] \<and> (\<forall>c\<in>set ''---''. \<not> isAlnum c)"
    by code_simp
  have "toPascalCase (Some ''---'') = []"
    by (rule toPascalCase_fallback_only_without_name
               [of "''---''", THEN conjunct2, THEN conjunct2, THEN conjunct2, THEN conjunct2,
                THEN mp, OF h])
  moreover have "toPascalCase (Some ''---'') = join [] (map capitalize (pascalParts ''---''))"
    by (rule toPascalCase_fallback_only_without_name
               [of "''---''", THEN conjunct2, THEN conjunct2, THEN conjunct2, THEN conjunct1,
                THEN mp]) simp
  ultimately show ?thesis by simp
qed

text \<open>
  The tests of the repository, and a name that reaches \<open>Ontology\<close> through the
  capitalisation of its one part rather than through the fallback.
\<close>

lemma toPascalCase_examples:
  "toPascalCase (Some ''example-ontology_name.foo'') = ''ExampleOntologyNameFoo''"
  "toPascalCase (Some ''example ontology name'') = ''ExampleOntologyName''"
  "toPascalCase (Some ''ontology'') = ''Ontology''"
  by code_simp+

subsection \<open>Graph accessors and metadata\<close>

lemma namedNode_iff: "isNamedNode t \<and> termValue t = v \<longleftrightarrow> t = NamedNode v"
  by (cases t) auto

lemma set_literalsOfPredicate:
  "set (literalsOfPredicate (getQuadsForSubject st s) p) =
     {object q | q. q \<in> set st \<and> subject q = NamedNode s \<and> predicate q = NamedNode p \<and>
                    isLiteral (object q)}"
  unfolding literalsOfPredicate_def getQuadsForSubject_def
  by (auto simp: namedNode_iff[symmetric])

lemma pickBestLiteral_None_iff: "pickBestLiteral xs = None \<longleftrightarrow> xs = []"
  by (cases xs) (auto simp: pickBestLiteral_def Let_def split: option.splits)

lemma find_Some_mem: "find P xs = Some x \<Longrightarrow> x \<in> set xs"
  by (induction xs) (auto split: if_splits)

lemma pickBestLiteral_mem: "pickBestLiteral xs = Some b \<Longrightarrow> b \<in> set xs"
  by (auto simp: pickBestLiteral_unfold split: if_splits option.splits dest: find_Some_mem)

lemma preferredLiteralLoop_skip:
  "\<forall>p'\<in>set before. literalsOfPredicate qs p' = [] \<Longrightarrow>
   preferredLiteralLoop qs (before @ rest) = preferredLiteralLoop qs rest"
  by (induction before) (auto simp: pickBestLiteral_def)

text \<open>
  Claim C9. In \<open>getPreferredLiteralForPredicates\<close>, let \<open>p\<close> be the first candidate
  predicate for which the subject has a literal object. The search ends there: the
  result is the value of the literal \<open>pickBestLiteral\<close> selects for \<open>p\<close>, whatever
  candidates come after \<open>p\<close>; when every literal of \<open>p\<close> has the empty string as value,
  the result is the empty string (and not \<open>null\<close>), even if later candidates carry text.
\<close>

theorem getPreferredLiteral_stops_at_first_predicate_with_literal:
  assumes none_before:
      "\<forall>p'\<in>set before. \<forall>q\<in>set st.
          subject q = NamedNode s \<and> predicate q = NamedNode p' \<longrightarrow> \<not> isLiteral (object q)"
    and some_here:
      "\<exists>q\<in>set st. subject q = NamedNode s \<and> predicate q = NamedNode p \<and> isLiteral (object q)"
  shows "(\<exists>best. pickBestLiteral (literalsOfPredicate (getQuadsForSubject st s) p) = Some best \<and>
            getPreferredLiteralForPredicates st s (before @ p # after) = Some (termValue best)) \<and>
         getPreferredLiteralForPredicates st s (before @ p # after) =
            getPreferredLiteralForPredicates st s (before @ [p]) \<and>
         ((\<forall>q\<in>set st. subject q = NamedNode s \<and> predicate q = NamedNode p \<and>
                        isLiteral (object q) \<longrightarrow> termValue (object q) = []) \<longrightarrow>
            getPreferredLiteralForPredicates st s (before @ p # after) = Some [])"
proof -
  let ?qs = "getQuadsForSubject st s"
  have skip: "\<forall>p'\<in>set before. literalsOfPredicate ?qs p' = []"
  proof
    fix p' assume "p' \<in> set before"
    with none_before have "set (literalsOfPredicate ?qs p') = {}"
      unfolding set_literalsOfPredicate by blast
    then show "literalsOfPredicate ?qs p' = []" by simp
  qed
  from some_here have "set (literalsOfPredicate ?qs p) \<noteq> {}"
    unfolding set_literalsOfPredicate by blast
  then have "pickBestLiteral (literalsOfPredicate ?qs p) \<noteq> None"
    by (simp add: pickBestLiteral_None_iff)
  then obtain best where best: "pickBestLiteral (literalsOfPredicate ?qs p) = Some best"
    by auto
  have res: "getPreferredLiteralForPredicates st s (before @ p # rest) = Some (termValue best)"
    for rest
    unfolding getPreferredLiteralForPredicates_def
    by (simp add: preferredLiteralLoop_skip [OF skip] best)
  have empty: "termValue best = []"
    if "\<forall>q\<in>set st. subject q = NamedNode s \<and> predicate q = NamedNode p \<and>
                        isLiteral (object q) \<longrightarrow> termValue (object q) = []"
  proof -
    from best have "best \<in> set (literalsOfPredicate ?qs p)" by (rule pickBestLiteral_mem)
    with that show ?thesis unfolding set_literalsOfPredicate by blast
  qed
  show ?thesis
    using best res [of after] res [of "[]"] empty by simp
qed


theorem getPreferredLiteral_stops_at_first_predicate_with_literal_witness:
  "getPreferredLiteralForPredicates exampleStore ''http://example.org/ClassA''
     ([NS_rdfs @ ''label''] @ (NS_dcterms @ ''title'') # [NS_dc @ ''title'']) = Some [] \<and>
   getPreferredLiteralForPredicates exampleStore ''http://example.org/ClassA''
     ([NS_rdfs @ ''label''] @ (NS_dcterms @ ''title'') # [NS_dc @ ''title''])
     = getPreferredLiteralForPredicates exampleStore ''http://example.org/ClassA''
         ([NS_rdfs @ ''label''] @ [NS_dcterms @ ''title'']) \<and>
   getPreferredLiteralForPredicates exampleStore ''http://example.org/ClassA''
     [NS_dc @ ''title''] = Some ''Class A''"
proof -
  let ?s = "''http://example.org/ClassA''"
  have h1: "\<forall>p'\<in>set [NS_rdfs @ ''label'']. \<forall>q\<in>set exampleStore.
              subject q = NamedNode ?s \<and> predicate q = NamedNode p' \<longrightarrow> \<not> isLiteral (object q)"
    by code_simp
  have h2: "\<exists>q\<in>set exampleStore. subject q = NamedNode ?s \<and>
              predicate q = NamedNode (NS_dcterms @ ''title'') \<and> isLiteral (object q)"
    by code_simp
  have h3: "\<forall>q\<in>set exampleStore. subject q = NamedNode ?s \<and>
              predicate q = NamedNode (NS_dcterms @ ''title'') \<and> isLiteral (object q)
              \<longrightarrow> termValue (object q) = []"
    by code_simp
  have h4: "getPreferredLiteralForPredicates exampleStore ?s [NS_dc @ ''title''] = Some ''Class A''"
    by code_simp
  note t = getPreferredLiteral_stops_at_first_predicate_with_literal
             [of "[NS_rdfs @ ''label'']" exampleStore ?s "NS_dcterms @ ''title''"
                 "[NS_dc @ ''title'']", OF h1 h2]
  from t [THEN conjunct2, THEN conjunct2, THEN mp, OF h3] t [THEN conjunct2, THEN conjunct1] h4
  show ?thesis by (intro conjI)
qed

lemma getOntologySubjectIri_None:
  assumes "\<forall>q\<in>set st. \<not> (predicate q = NamedNode (NS_rdf @ ''type'') \<and>
                            object q = NamedNode (NS_owl @ ''Ontology''))"
  shows "getOntologySubjectIri st = None"
proof -
  have "\<not> (isNamedNode (predicate q) \<and> termValue (predicate q) = NS_rdf @ ''type'' \<and>
            isNamedNode (object q) \<and> termValue (object q) = NS_owl @ ''Ontology'')"
    if "q \<in> set st" for q
  proof
    assume a: "isNamedNode (predicate q) \<and> termValue (predicate q) = NS_rdf @ ''type'' \<and>
               isNamedNode (object q) \<and> termValue (object q) = NS_owl @ ''Ontology''"
    then have "isNamedNode (predicate q) \<and> termValue (predicate q) = NS_rdf @ ''type''"
      and "isNamedNode (object q) \<and> termValue (object q) = NS_owl @ ''Ontology''"
      by blast+
    then have "predicate q = NamedNode (NS_rdf @ ''type'')"
      and "object q = NamedNode (NS_owl @ ''Ontology'')"
      by (simp_all only: namedNode_iff)
    with assms that show False by blast
  qed
  then have "find (\<lambda>q. isNamedNode (predicate q) \<and> termValue (predicate q) = NS_rdf @ ''type'' \<and>
            isNamedNode (object q) \<and> termValue (object q) = NS_owl @ ''Ontology'') st = None"
    unfolding find_None_iff by blast
  then show ?thesis by (simp add: getOntologySubjectIri_def)
qed

text \<open>
  Claim C6. For a store without any quad whose predicate is \<open>rdf:type\<close> and whose
  object is \<open>owl:Ontology\<close>, \<open>extractOntologyMetadata\<close> returns the record with all
  seven fields \<open>null\<close>. The function is total: it has no failing branch.
\<close>

theorem extractOntologyMetadata_without_ontology:
  assumes "\<forall>q\<in>set st. \<not> (predicate q = NamedNode (NS_rdf @ ''type'') \<and>
                            object q = NamedNode (NS_owl @ ''Ontology''))"
  shows "extractOntologyMetadata st =
           \<lparr> ontologyIri = None, ontologyName = None, versionIri = None, versionInfo = None,
             description = None, license = None, rightsHolder = None \<rparr>"
  using getOntologySubjectIri_None [OF assms]
  by (simp add: extractOntologyMetadata_def)

theorem extractOntologyMetadata_without_ontology_witness:
  "extractOntologyMetadata exampleStore =
           \<lparr> ontologyIri = None, ontologyName = None, versionIri = None, versionInfo = None,
             description = None, license = None, rightsHolder = None \<rparr> \<and>
   extractOntologyMetadata [] =
           \<lparr> ontologyIri = None, ontologyName = None, versionIri = None, versionInfo = None,
             description = None, license = None, rightsHolder = None \<rparr>"
proof -
  have h: "\<forall>q\<in>set exampleStore. \<not> (predicate q = NamedNode (NS_rdf @ ''type'') \<and>
                            object q = NamedNode (NS_owl @ ''Ontology''))"
    by code_simp
  show ?thesis
    by (intro conjI extractOntologyMetadata_without_ontology [OF h]
              extractOntologyMetadata_without_ontology [of "[]"]) simp
qed

subsection \<open>buildElementTableModel\<close>

lemma filterByFlags_Nil: "filterByFlags [] flags = []"
  by (simp add: filterByFlags_def)

lemma filterByFlags_Cons:
  "filterByFlags (x # xs) (b # flags) = (if b then x # filterByFlags xs flags else filterByFlags xs flags)"
proof -
  have upt: "[0..<length (x # xs)] = 0 # map Suc [0..<length xs]"
    by (simp add: upt_conv_Cons map_Suc_upt del: upt_Suc)
  have a: "filter (\<lambda>i. i < Suc (length flags) \<and> (b # flags) ! i) (map Suc js)
        = map Suc (filter (\<lambda>i. i < length flags \<and> flags ! i) js)" for js
    by (simp add: filter_map comp_def)
  have b: "map ((!) (x # xs)) (map Suc js) = map ((!) xs) js" for js
    by simp
  have "filterByFlags (x # xs) (b # flags) =
          (if b then [x] else []) @
          map ((!) (x # xs)) (filter (\<lambda>i. i < Suc (length flags) \<and> (b # flags) ! i)
                                (map Suc [0..<length xs]))"
    unfolding filterByFlags_def upt by simp
  also have "\<dots> = (if b then [x] else []) @ filterByFlags xs flags"
    unfolding a b filterByFlags_def ..
  finally show ?thesis by simp
qed

lemma filterByFlags_zip:
  "length xs = length flags \<Longrightarrow> filterByFlags xs flags = map fst (filter snd (zip xs flags))"
  by (induction xs flags rule: list_induct2) (simp_all add: filterByFlags_Nil filterByFlags_Cons)

lemma filter_zip_map:
  "length xs = length ks \<Longrightarrow>
   filter snd (zip xs (map g ks)) = map (\<lambda>(x, k). (x, g k)) (filter (\<lambda>(x, k). g k) (zip xs ks))"
  by (induction xs ks rule: list_induct2) auto

lemma filterByFlags_map:
  assumes "length xs = length ks"
  shows "filterByFlags xs (map g ks) = map fst (filter (\<lambda>(x, k). g k) (zip xs ks))"
proof -
  have "filterByFlags xs (map g ks) = map fst (filter snd (zip xs (map g ks)))"
    using assms by (simp add: filterByFlags_zip)
  also have "\<dots> = map fst (filter (\<lambda>(x, k). g k) (zip xs ks))"
    using assms by (simp add: filter_zip_map comp_def case_prod_unfold)
  finally show ?thesis .
qed

lemma filterByFlags_self:
  "filterByFlags ks (map g ks) = filter g ks"
proof -
  have "map fst (filter (\<lambda>(x, k). g k) (zip ks ks)) = filter g ks"
    by (induction ks) auto
  then show ?thesis by (simp add: filterByFlags_map)
qed

lemma keepFlags_map:
  "keepFlags rws = map (\<lambda>key. key = ''iri'' \<or> (\<exists>r\<in>set rws. trim (field r key) \<noteq> [])) allKeys"
  by (simp add: keepFlags_def list_ex_iff)

lemma length_allKeys: "length allHeaders = length allKeys"
  by (simp add: allHeaders_def allKeys_def)

lemma distinct_allKeys: "distinct allKeys"
  by code_simp

lemma distinct_allHeaders: "distinct allHeaders"
  by code_simp

lemma zip_all_Cons: "\<exists>ps. zip allHeaders allKeys = (''iri'', ''iri'') # ps"
  by (simp add: allHeaders_def allKeys_def)

lemma keys_build:
  "keys (buildElementTableModel st) =
     filter (\<lambda>k. k = ''iri'' \<or>
                 (\<exists>r\<in>set (map (elementRow st) (elementSubjects st)). trim (field r k) \<noteq> []))
            allKeys"
  by (simp add: buildElementTableModel_def Let_def keepFlags_map filterByFlags_self)

lemma headers_build:
  "headers (buildElementTableModel st) =
     map fst (filter (\<lambda>(h, k). k = ''iri'' \<or>
                 (\<exists>r\<in>set (map (elementRow st) (elementSubjects st)). trim (field r k) \<noteq> []))
            (zip allHeaders allKeys))"
  by (simp add: buildElementTableModel_def Let_def keepFlags_map filterByFlags_map length_allKeys)

lemma keys_build_zip:
  "keys (buildElementTableModel st) =
     map snd (filter (\<lambda>(h, k). k = ''iri'' \<or>
                 (\<exists>r\<in>set (map (elementRow st) (elementSubjects st)). trim (field r k) \<noteq> []))
            (zip allHeaders allKeys))"
proof -
  have "map snd (filter (\<lambda>(h, k). g k) (zip hs ks)) = filter g ks"
    if "length hs = length ks" for g :: "string \<Rightarrow> bool" and hs ks :: "string list"
    using that by (induction hs ks rule: list_induct2) auto
  then show ?thesis by (simp add: keys_build length_allKeys)
qed

lemma rows_build:
  "rows (buildElementTableModel st) =
     map (pruneRow (keys (buildElementTableModel st))) (map (elementRow st) (elementSubjects st))"
  by (simp add: buildElementTableModel_def Let_def)

lemma assocSet_fresh: "k \<notin> fst ` set m \<Longrightarrow> assocSet m k v = m @ [(k, v)]"
  by (induction m) auto

lemma fold_assocSet:
  "distinct ks \<Longrightarrow> set ks \<inter> fst ` set acc = {} \<Longrightarrow>
   fold (\<lambda>k obj. assocSet obj k (f k)) ks acc = acc @ map (\<lambda>k. (k, f k)) ks"
proof (induction ks arbitrary: acc)
  case Nil
  then show ?case by simp
next
  case (Cons k ks)
  from Cons.prems have fresh: "k \<notin> fst ` set acc" by auto
  from Cons.prems have "distinct ks" and "set ks \<inter> fst ` set (acc @ [(k, f k)]) = {}"
    by auto
  then have "fold (\<lambda>k obj. assocSet obj k (f k)) ks (acc @ [(k, f k)])
             = (acc @ [(k, f k)]) @ map (\<lambda>k. (k, f k)) ks"
    by (rule Cons.IH)
  with fresh show ?case by (simp add: assocSet_fresh)
qed

lemma pruneRow_distinct:
  "distinct ks \<Longrightarrow> pruneRow ks r = map (\<lambda>k. (k, field r k)) ks"
  unfolding pruneRow_def by (simp add: fold_assocSet)

lemma field_pruneRow:
  assumes "distinct ks"
  shows "field (pruneRow ks r) k = (if k \<in> set ks then field r k else [])"
proof -
  have "map_of (map (\<lambda>k. (k, field r k)) ks) k = (if k \<in> set ks then Some (field r k) else None)"
    by (induction ks) auto
  then show ?thesis
    using assms by (simp add: pruneRow_distinct field_def orEmpty_def)
qed

lemma distinct_keys_build: "distinct (keys (buildElementTableModel st))"
  by (simp add: keys_build distinct_allKeys)

text \<open>
  Claim C1. For every store, the model that \<open>buildElementTableModel\<close> returns has as
  many headers as keys, \<open>iri\<close> is its first header and its first key, its keys are
  pairwise different, and the fields of every row are exactly its keys, in that order.
\<close>

theorem buildElementTableModel_shape:
  "length (headers (buildElementTableModel st)) = length (keys (buildElementTableModel st)) \<and>
   (\<exists>hs. headers (buildElementTableModel st) = ''iri'' # hs) \<and>
   (\<exists>ks. keys (buildElementTableModel st) = ''iri'' # ks) \<and>
   distinct (keys (buildElementTableModel st)) \<and>
   (\<forall>r\<in>set (rows (buildElementTableModel st)). map fst r = keys (buildElementTableModel st))"
proof (intro conjI)
  let ?m = "buildElementTableModel st"
  show "length (headers ?m) = length (keys ?m)"
    by (simp add: headers_build keys_build_zip)
  from zip_all_Cons obtain ps where ps: "zip allHeaders allKeys = (''iri'', ''iri'') # ps" ..
  show "\<exists>hs. headers ?m = ''iri'' # hs"
    by (simp add: headers_build ps)
  show "\<exists>ks. keys ?m = ''iri'' # ks"
    by (simp add: keys_build_zip ps)
  show d: "distinct (keys ?m)" by (rule distinct_keys_build)
  show "\<forall>r\<in>set (rows ?m). map fst r = keys ?m"
    by (auto simp: rows_build pruneRow_distinct [OF d] comp_def)
qed

theorem buildElementTableModel_shape_witness:
  "rows (buildElementTableModel exampleStore) \<noteq> [] \<and>
   map fst (hd (rows (buildElementTableModel exampleStore))) =  keys (buildElementTableModel exampleStore) \<and>
   keys (buildElementTableModel exampleStore) = [''iri'', ''type'', ''subClassOf''] \<and>
   length (headers (buildElementTableModel exampleStore)) = 3"
proof -
  let ?m = "buildElementTableModel exampleStore"
  have ks: "keys ?m = [''iri'', ''type'', ''subClassOf'']" by code_simp
  have ne: "rows ?m \<noteq> []" by code_simp
  then have "hd (rows ?m) \<in> set (rows ?m)" by simp
  with buildElementTableModel_shape [of exampleStore]
  have "map fst (hd (rows ?m)) = keys ?m" by blast
  moreover from buildElementTableModel_shape [of exampleStore]
  have "length (headers ?m) = length (keys ?m)" by blast
  ultimately show ?thesis using ne ks by simp
qed

text \<open>
  Claim C3. The columns of the returned model are the fixed columns, in their order,
  whose key is \<open>iri\<close> or for which some element row has a value with a character
  that is not white space (the values that \<open>trim\<close> does not make empty). So a column other than \<open>iri\<close> is among the headers, and its key among the
  keys, exactly when some row has such a value for it, be it a row as computed or a row
  of the returned model; the returned rows carry the computed values of the kept keys.
  Without element subjects there are no rows, and headers and keys are \<open>[iri]\<close>.
\<close>

theorem buildElementTableModel_columns:
  "zip (headers (buildElementTableModel st)) (keys (buildElementTableModel st)) =
     filter (\<lambda>(h, k). k = ''iri'' \<or>
                (\<exists>subj\<in>set (elementSubjects st).
                    \<exists>c\<in>set (field (elementRow st subj) k). \<not> isWhiteSpace c))
            (zip allHeaders allKeys) \<and>
   (\<forall>(h, k)\<in>set (zip allHeaders allKeys). k \<noteq> ''iri'' \<longrightarrow>
      (h \<in> set (headers (buildElementTableModel st))) =
         (\<exists>subj\<in>set (elementSubjects st).
             \<exists>c\<in>set (field (elementRow st subj) k). \<not> isWhiteSpace c) \<and>
      (k \<in> set (keys (buildElementTableModel st))) =
         (\<exists>subj\<in>set (elementSubjects st).
             \<exists>c\<in>set (field (elementRow st subj) k). \<not> isWhiteSpace c) \<and>
      (k \<in> set (keys (buildElementTableModel st))) =
         (\<exists>r\<in>set (rows (buildElementTableModel st)).
             \<exists>c\<in>set (field r k). \<not> isWhiteSpace c)) \<and>
   rows (buildElementTableModel st) =
     map (\<lambda>subj. map (\<lambda>k. (k, field (elementRow st subj) k)) (keys (buildElementTableModel st)))
         (elementSubjects st) \<and>
   (elementSubjects st = [] \<longrightarrow>
      rows (buildElementTableModel st) = [] \<and>
      headers (buildElementTableModel st) = [''iri''] \<and>
      keys (buildElementTableModel st) = [''iri''])"
proof -
  let ?m = "buildElementTableModel st"
  let ?data = "\<lambda>k. \<exists>subj\<in>set (elementSubjects st). trim (field (elementRow st subj) k) \<noteq> []"
  let ?keep = "\<lambda>(h :: string, k). k = ''iri'' \<or> ?data k"
  let ?kept = "filter ?keep (zip allHeaders allKeys)"
  have hs: "headers ?m = map fst ?kept" by (simp add: headers_build)
  have ks: "keys ?m = map snd ?kept" by (simp add: keys_build_zip)
  have ks': "keys ?m = filter (\<lambda>k. k = ''iri'' \<or> ?data k) allKeys" by (simp add: keys_build)
  have d: "distinct (keys ?m)" by (rule distinct_keys_build)
  have z: "zip (headers ?m) (keys ?m) = ?kept"
    unfolding hs ks by (simp add: zip_map_fst_snd)
  have rs: "rows ?m = map (\<lambda>subj. map (\<lambda>k. (k, field (elementRow st subj) k)) (keys ?m))
                         (elementSubjects st)"
    by (simp add: rows_build pruneRow_distinct [OF d] comp_def)
  have col: "(h \<in> set (headers ?m)) = ?data k \<and> (k \<in> set (keys ?m)) = ?data k \<and>
             (k \<in> set (keys ?m)) = (\<exists>r\<in>set (rows ?m). trim (field r k) \<noteq> [])"
    if hk: "(h, k) \<in> set (zip allHeaders allKeys)" and k: "k \<noteq> ''iri''" for h k
  proof (intro conjI)
    from hk have kin: "k \<in> set allKeys" by (rule set_zip_rightD)
    show kd: "(k \<in> set (keys ?m)) = ?data k" using kin k by (auto simp: ks')
    show "(h \<in> set (headers ?m)) = ?data k"
    proof
      assume "h \<in> set (headers ?m)"
      then obtain k' where "(h, k') \<in> set ?kept"
        unfolding hs by force
      then have k': "(h, k') \<in> set (zip allHeaders allKeys)" "k' = ''iri'' \<or> ?data k'"
        by simp_all
      from hk k'(1) have "k' = k"
        using distinct_allHeaders length_allKeys
        by (metis distinct_conv_nth in_set_zip fst_conv snd_conv)
      with k'(2) k show "?data k" by simp
    next
      assume "?data k"
      with hk have "(h, k) \<in> set ?kept" by simp
      then show "h \<in> set (headers ?m)" unfolding hs by force
    qed
    show "(k \<in> set (keys ?m)) = (\<exists>r\<in>set (rows ?m). trim (field r k) \<noteq> [])"
    proof
      assume kk: "k \<in> set (keys ?m)"
      with kd obtain subj where subj: "subj \<in> set (elementSubjects st)"
          "trim (field (elementRow st subj) k) \<noteq> []" by blast
      have "field (pruneRow (keys ?m) (elementRow st subj)) k = field (elementRow st subj) k"
        using kk by (simp add: field_pruneRow [OF d])
      moreover have "pruneRow (keys ?m) (elementRow st subj) \<in> set (rows ?m)"
        using subj(1) by (simp add: rows_build)
      ultimately show "\<exists>r\<in>set (rows ?m). trim (field r k) \<noteq> []"
        using subj(2) by metis
    next
      assume "\<exists>r\<in>set (rows ?m). trim (field r k) \<noteq> []"
      then obtain subj where "subj \<in> set (elementSubjects st)"
          "trim (field (pruneRow (keys ?m) (elementRow st subj)) k) \<noteq> []"
        by (auto simp: rows_build)
      then show "k \<in> set (keys ?m)"
        by (auto simp: field_pruneRow [OF d] trim_def split: if_splits)
    qed
  qed
  have empty: "rows ?m = [] \<and> headers ?m = [''iri''] \<and> keys ?m = [''iri'']"
    if "elementSubjects st = []"
  proof -
    have "filter (\<lambda>(h :: string, k). k = ''iri'') (zip allHeaders allKeys) = [(''iri'', ''iri'')]"
      by code_simp
    with that show ?thesis by (simp add: rs hs ks)
  qed
  show ?thesis
    unfolding nonblank_iff using z rs col empty by blast
qed

theorem buildElementTableModel_columns_witness:
  "''type'' \<in> set (keys (buildElementTableModel exampleStore)) \<and>
   ''type'' \<in> set (headers (buildElementTableModel exampleStore)) \<and>
   ''alternativeLabel'' \<notin> set (keys (buildElementTableModel exampleStore)) \<and>
   ''alternative label'' \<notin> set (headers (buildElementTableModel exampleStore)) \<and>
   ''label'' \<notin> set (keys (buildElementTableModel exampleStore)) \<and>
   buildElementTableModel [] = \<lparr> headers = [''iri''], keys = [''iri''], rows = [] \<rparr>"
proof -
  let ?m = "buildElementTableModel exampleStore"
  let ?data = "\<lambda>k. \<exists>subj\<in>set (elementSubjects exampleStore).
                    \<exists>c\<in>set (field (elementRow exampleStore subj) k). \<not> isWhiteSpace c"
  note t = buildElementTableModel_columns [of exampleStore, THEN conjunct2, THEN conjunct1,
                                           rule_format]
  have z1: "(''type'', ''type'') \<in> set (zip allHeaders allKeys)" by code_simp
  have z2: "(''alternative label'', ''alternativeLabel'') \<in> set (zip allHeaders allKeys)"
    by code_simp
  have z3: "(''label'', ''label'') \<in> set (zip allHeaders allKeys)" by code_simp
  have d1: "?data ''type''" by code_simp
  have d2: "\<not> ?data ''alternativeLabel''" by code_simp
  have d3: "\<not> ?data ''label''" by code_simp
  have n1: "''type'' \<noteq> ''iri''" and n2: "''alternativeLabel'' \<noteq> ''iri''"
    and n3: "''label'' \<noteq> ''iri''" by simp_all
  from t [OF z1] n1 d1 have a: "''type'' \<in> set (keys ?m)" "''type'' \<in> set (headers ?m)"
    by simp_all
  from t [OF z2] n2 d2 have b: "''alternativeLabel'' \<notin> set (keys ?m)"
      "''alternative label'' \<notin> set (headers ?m)"
    by simp_all
  from t [OF z3] n3 d3 have c: "''label'' \<notin> set (keys ?m)" by simp
  have e: "elementSubjects [] = []" by code_simp
  from buildElementTableModel_columns [of "[]", THEN conjunct2, THEN conjunct2, THEN conjunct2,
                                       THEN mp, OF e]
  have "buildElementTableModel [] = \<lparr> headers = [''iri''], keys = [''iri''], rows = [] \<rparr>"
    by simp
  with a b c show ?thesis by simp
qed

subsection \<open>filterAndSortRows\<close>

lemma mset_insertBy: "mset (insertBy cmp x xs) = add_mset x (mset xs)"
  by (induction xs) auto

lemma mset_sortBy: "mset (sortBy cmp xs) = mset xs"
  unfolding sortBy_def by (induction xs) (auto simp: mset_insertBy)

lemma set_insertBy: "set (insertBy cmp x xs) = insert x (set xs)"
  by (induction xs) auto

lemma sorted_insertBy:
  assumes total: "\<And>a b. cmp a b \<le> 0 \<or> cmp b a \<le> 0"
      and trans: "\<And>a b c. cmp a b \<le> 0 \<Longrightarrow> cmp b c \<le> 0 \<Longrightarrow> cmp a c \<le> 0"
      and "sorted_wrt (\<lambda>a b. cmp a b \<le> 0) xs"
  shows "sorted_wrt (\<lambda>a b. cmp a b \<le> 0) (insertBy cmp x xs)"
  using assms(3)
proof (induction xs)
  case Nil
  then show ?case by simp
next
  case (Cons y ys)
  show ?case
  proof (cases "cmp x y \<le> 0")
    case True
    with Cons.prems trans show ?thesis by auto
  next
    case False
    with total have "cmp y x \<le> 0" by blast
    with False Cons show ?thesis by (auto simp: set_insertBy)
  qed
qed

lemma sorted_sortBy:
  assumes "\<And>a b. cmp a b \<le> 0 \<or> cmp b a \<le> 0"
      and "\<And>a b c. cmp a b \<le> 0 \<Longrightarrow> cmp b c \<le> 0 \<Longrightarrow> cmp a c \<le> 0"
  shows "sorted_wrt (\<lambda>a b. cmp a b \<le> 0) (sortBy cmp xs)"
  unfolding sortBy_def
  by (induction xs) (simp_all add: sorted_insertBy [OF assms])

text \<open>The result in terms of the filtered rows, by the branch taken.\<close>

lemma filterAndSortRows_skip:
  "sortSkipped model sortIndex \<Longrightarrow>
   filterAndSortRows lc model query sortIndex dir = filteredRows model query"
  by (auto simp: sortSkipped_def filterAndSortRows_def filteredRows_def Let_def
           split: option.splits)

lemma filterAndSortRows_sort:
  "sortIndex = Some i \<Longrightarrow> 0 \<le> i \<Longrightarrow> i < int (length (headers model)) \<Longrightarrow>
   at (keys model) i = Some key \<Longrightarrow> key \<noteq> [] \<Longrightarrow>
   filterAndSortRows lc model query sortIndex dir =
     sortBy (rowComparator lc key (directionOrDefault dir)) (filteredRows model query)"
  by (auto simp: filterAndSortRows_def filteredRows_def Let_def split: option.splits)

lemma mset_filterAndSortRows:
  "mset (filterAndSortRows lc model query sortIndex dir) = mset (filteredRows model query)"
  by (auto simp: filterAndSortRows_def filteredRows_def Let_def mset_sortBy split: option.splits)

lemma rowMatches_iff:
  "rowMatches q r \<longleftrightarrow> (\<exists>v\<in>set (objectValues r). \<exists>pre post. toLowerCase v = pre @ q @ post)"
  by (simp add: rowMatches_def list_ex_iff includesStr_iff)

text \<open>
  Claim C4, as the code has it. For every model, sort index and direction: when the
  query is not empty, or when every row of the model has at least one field, the rows
  that \<open>filterAndSortRows\<close> returns are, counted with multiplicity, the rows of the
  model in which some field value in lower case contains the query in lower case as a
  substring. When the query is empty or \<open>null\<close>, the function does not filter: the
  rows returned are all the rows of the model, a row without fields among them.
\<close>

theorem filterAndSortRows_keeps_matching_rows:
  "((\<forall>r\<in>set (rows model). r \<noteq> []) \<or> orEmpty query \<noteq> [] \<longrightarrow>
      mset (filterAndSortRows lc model query sortIndex dir) =
        mset (filter (\<lambda>r. \<exists>v\<in>set (objectValues r). \<exists>pre post.
                           toLowerCase v = pre @ toLowerCase (orEmpty query) @ post)
                     (rows model))) \<and>
   (orEmpty query = [] \<longrightarrow>
      mset (filterAndSortRows lc model query sortIndex dir) = mset (rows model))"
proof (cases "orEmpty query = []")
  case True
  have all: "filteredRows model query = rows model"
    using True by (simp add: filteredRows_def toLowerCase_def)
  have "filter (\<lambda>r. \<exists>v\<in>set (objectValues r). \<exists>pre post.
                       toLowerCase v = pre @ toLowerCase (orEmpty query) @ post)
               (rows model) = rows model"
    if fields: "\<forall>r\<in>set (rows model). r \<noteq> []"
  proof -
    have "\<exists>v\<in>set (objectValues r). \<exists>pre post. toLowerCase v = pre @ [] @ post"
      if "r \<in> set (rows model)" for r
    proof -
      from fields that obtain kv r' where "r = kv # r'" by (cases r) auto
      then have "snd kv \<in> set (objectValues r)" by (simp add: objectValues_def)
      moreover have "toLowerCase (snd kv) = [] @ [] @ toLowerCase (snd kv)" by simp
      ultimately show ?thesis by blast
    qed
    then show ?thesis using True by (simp add: toLowerCase_def)
  qed
  with True all show ?thesis by (simp add: mset_filterAndSortRows)
next
  case False
  have "rowMatches q = (\<lambda>r. \<exists>v\<in>set (objectValues r). \<exists>pre post.
                          toLowerCase v = pre @ q @ post)" for q
    by (simp add: fun_eq_iff rowMatches_iff)
  with False have "filteredRows model query =
     filter (\<lambda>r. \<exists>v\<in>set (objectValues r). \<exists>pre post.
                    toLowerCase v = pre @ toLowerCase (orEmpty query) @ post) (rows model)"
    by (simp add: filteredRows_def toLowerCase_Nil_iff)
  with False show ?thesis by (simp add: mset_filterAndSortRows)
qed

theorem filterAndSortRows_keeps_matching_rows_witness:
  "mset (filterAndSortRows codeUnitCompare zebraModel (Some ''AN'') (Some 1) (Some ''asc'')) =
     mset (filter (\<lambda>r. \<exists>v\<in>set (objectValues r). \<exists>pre post.
                              toLowerCase v = pre @ toLowerCase (orEmpty (Some ''AN'')) @ post)
                  (rows zebraModel)) \<and>
   filterAndSortRows codeUnitCompare zebraModel (Some ''AN'') (Some 1) (Some ''asc'') =
     [[(''iri'', ''http://example.org/c''), (''label'', ''Banana'')]] \<and>
   [] \<notin> set (rows zebraModel) \<and>
   mset (filterAndSortRows codeUnitCompare zebraModel (Some []) (Some 1) (Some ''asc'')) =
     mset (filter (\<lambda>r. \<exists>v\<in>set (objectValues r). \<exists>pre post.
                              toLowerCase v = pre @ toLowerCase (orEmpty (Some [])) @ post)
                  (rows zebraModel)) \<and>
   mset (filterAndSortRows codeUnitCompare zebraModel (Some []) (Some 1) (Some ''asc'')) =
     mset (rows zebraModel) \<and>
   mset (filterAndSortRows codeUnitCompare fieldlessModel None None None) =
     mset (rows fieldlessModel)"
proof -
  have h: "\<forall>r\<in>set (rows zebraModel). r \<noteq> []" by code_simp
  have n: "orEmpty (Some ''AN'') \<noteq> []" by (simp add: orEmpty_def)
  have e: "orEmpty (Some []) = []" by (simp add: orEmpty_def)
  have e': "orEmpty None = []" by (simp add: orEmpty_def)
  have c: "filterAndSortRows codeUnitCompare zebraModel (Some ''AN'') (Some 1) (Some ''asc'') =
     [[(''iri'', ''http://example.org/c''), (''label'', ''Banana'')]]" by code_simp
  from filterAndSortRows_keeps_matching_rows
         [of zebraModel "Some ''AN''" codeUnitCompare "Some 1" "Some ''asc''",
          THEN conjunct1, THEN mp, OF disjI2, OF n]
       filterAndSortRows_keeps_matching_rows
         [of zebraModel "Some []" codeUnitCompare "Some 1" "Some ''asc''",
          THEN conjunct1, THEN mp, OF disjI1, OF h]
       filterAndSortRows_keeps_matching_rows
         [of zebraModel "Some []" codeUnitCompare "Some 1" "Some ''asc''",
          THEN conjunct2, THEN mp, OF e]
       filterAndSortRows_keeps_matching_rows
         [of fieldlessModel None codeUnitCompare None None,
          THEN conjunct2, THEN mp, OF e']
       h c
  show ?thesis by (intro conjI) blast+
qed

text \<open>
  Where the claim as written fails: the one row of the model has no field, so no field
  value of it contains the query, and the empty query returns it all the same.
\<close>

theorem filterAndSortRows_keeps_matching_rows_counterexample:
  "filterAndSortRows codeUnitCompare fieldlessModel (Some []) None None = [[]] \<and>
   objectValues [] = [] \<and>
   filter (\<lambda>r. \<exists>v\<in>set (objectValues r). \<exists>pre post.
                  toLowerCase v = pre @ toLowerCase (orEmpty (Some [])) @ post)
          (rows fieldlessModel) = [] \<and>
   mset (filterAndSortRows codeUnitCompare fieldlessModel (Some []) None None) \<noteq>
     mset (filter (\<lambda>r. \<exists>v\<in>set (objectValues r). \<exists>pre post.
                         toLowerCase v = pre @ toLowerCase (orEmpty (Some [])) @ post)
                  (rows fieldlessModel))"
proof -
  have r: "filterAndSortRows codeUnitCompare fieldlessModel (Some []) None None = [[]]"
    by code_simp
  have f: "filter (\<lambda>r. \<exists>v\<in>set (objectValues r). \<exists>pre post.
                  toLowerCase v = pre @ toLowerCase (orEmpty (Some [])) @ post)
          (rows fieldlessModel) = []"
    by (simp add: fieldlessModel_def objectValues_def)
  show ?thesis unfolding r f by (simp add: objectValues_def)
qed

lemma rowComparator_le:
  "rowComparator lc key d a b \<le> 0 \<longleftrightarrow>
     (if d = ''asc'' then lc (field a key) (field b key) \<le> 0
      else 0 \<le> lc (field a key) (field b key))"
  by (simp add: rowComparator_def Let_def)

lemma orderedBy_sortBy:
  assumes sign: "\<forall>a b. (lc a b < 0) = (0 < lc b a)"
      and trans: "\<forall>a b c. lc a b \<le> 0 \<and> lc b c \<le> 0 \<longrightarrow> lc a c \<le> (0::int)"
  shows "orderedBy lc key d (sortBy (rowComparator lc key d) xs)"
proof -
  let ?cmp = "rowComparator lc key d"
  have total: "?cmp a b \<le> 0 \<or> ?cmp b a \<le> 0" for a b
    unfolding rowComparator_le
    using sign [rule_format, of "field a key" "field b key"] by auto
  have ge: "0 \<le> lc x y \<longleftrightarrow> lc y x \<le> 0" for x y
    using sign [rule_format, of x y] by auto
  have tr: "?cmp a c \<le> 0" if "?cmp a b \<le> 0" "?cmp b c \<le> 0" for a b c
  proof (cases "d = ''asc''")
    case True
    with that have "lc (field a key) (field b key) \<le> 0" "lc (field b key) (field c key) \<le> 0"
      unfolding rowComparator_le by simp_all
    then have "lc (field a key) (field c key) \<le> 0" using trans by blast
    with True show ?thesis unfolding rowComparator_le by simp
  next
    case False
    with that have "lc (field c key) (field b key) \<le> 0" "lc (field b key) (field a key) \<le> 0"
      unfolding rowComparator_le ge by auto
    then have "lc (field c key) (field a key) \<le> 0" using trans by blast
    with False show ?thesis unfolding rowComparator_le ge by simp
  qed
  have "sorted_wrt (\<lambda>a b. ?cmp a b \<le> 0) (sortBy ?cmp xs)"
    by (rule sorted_sortBy) (use total tr in blast)+
  then show ?thesis
    unfolding orderedBy_def rowComparator_le .
qed

text \<open>
  Claim C5, as the code has it. Let \<open>localeCompare\<close> be a consistent comparator: the
  sign of \<open>localeCompare a b\<close> is opposite to that of \<open>localeCompare b a\<close>, and
  \<open>localeCompare a b \<le> 0\<close> is transitive. \<open>filterAndSortRows\<close> skips sorting, returning the filtered
  rows in the model's order, when the sort index is \<open>null\<close>, negative or not below
  the number of headers, and also when the index resolves to no key or to the empty
  string. With an index in range that resolves to a non-empty key, the result is a
  rearrangement of the filtered rows ordered by \<open>localeCompare\<close> of that key's value:
  ascending for direction \<open>asc\<close>, descending otherwise. If \<open>localeCompare\<close> puts
  Apple before Banana before Zebra, the model with labels Zebra, Apple, Banana, empty
  query and column 1 gives Apple, Banana, Zebra ascending and Zebra, Banana, Apple
  descending.
\<close>

theorem filterAndSortRows_sorting:
  assumes sign: "\<forall>a b. (lc a b < 0) = (0 < lc b a)"
      and trans: "\<forall>a b c. lc a b \<le> 0 \<and> lc b c \<le> 0 \<longrightarrow> lc a c \<le> 0"
  shows "(sortSkipped model sortIndex \<longrightarrow>
            filterAndSortRows lc model query sortIndex dir = filteredRows model query) \<and>
         (\<forall>i key. sortIndex = Some i \<and> 0 \<le> i \<and> i < int (length (headers model)) \<and>
                   at (keys model) i = Some key \<and> key \<noteq> [] \<longrightarrow>
            mset (filterAndSortRows lc model query sortIndex dir) =
              mset (filteredRows model query) \<and>
            orderedBy lc key (directionOrDefault dir)
              (filterAndSortRows lc model query sortIndex dir)) \<and>
         (lc ''Apple'' ''Banana'' < 0 \<and> lc ''Banana'' ''Zebra'' < 0 \<longrightarrow>
            filterAndSortRows lc zebraModel (Some []) (Some 1) (Some ''asc'') =
              [[(''iri'', ''http://example.org/b''), (''label'', ''Apple'')],
               [(''iri'', ''http://example.org/c''), (''label'', ''Banana'')],
               [(''iri'', ''http://example.org/a''), (''label'', ''Zebra'')]] \<and>
            filterAndSortRows lc zebraModel (Some []) (Some 1) (Some ''desc'') =
              [[(''iri'', ''http://example.org/a''), (''label'', ''Zebra'')],
               [(''iri'', ''http://example.org/c''), (''label'', ''Banana'')],
               [(''iri'', ''http://example.org/b''), (''label'', ''Apple'')]])"
proof (intro conjI impI allI)
  show "filterAndSortRows lc model query sortIndex dir = filteredRows model query"
    if "sortSkipped model sortIndex"
    using that by (rule filterAndSortRows_skip)
next
  fix i key
  assume a: "sortIndex = Some i \<and> 0 \<le> i \<and> i < int (length (headers model)) \<and>
             at (keys model) i = Some key \<and> key \<noteq> []"
  show "mset (filterAndSortRows lc model query sortIndex dir) = mset (filteredRows model query)"
    by (rule mset_filterAndSortRows)
  from a have "filterAndSortRows lc model query sortIndex dir =
     sortBy (rowComparator lc key (directionOrDefault dir)) (filteredRows model query)"
    by (intro filterAndSortRows_sort) auto
  then show "orderedBy lc key (directionOrDefault dir)
               (filterAndSortRows lc model query sortIndex dir)"
    by (simp add: orderedBy_sortBy [OF sign trans])
next
  assume ex: "lc ''Apple'' ''Banana'' < 0 \<and> lc ''Banana'' ''Zebra'' < 0"
  then have ab: "lc ''Apple'' ''Banana'' < 0" and bz: "lc ''Banana'' ''Zebra'' < 0"
    by simp_all
  have zb: "0 < lc ''Zebra'' ''Banana''" using bz sign by simp
  have za: "0 < lc ''Zebra'' ''Apple''"
  proof (rule ccontr)
    assume "\<not> 0 < lc ''Zebra'' ''Apple''"
    then have "lc ''Zebra'' ''Apple'' \<le> 0" by simp
    moreover have "lc ''Apple'' ''Banana'' \<le> 0" using ab by simp
    ultimately have "lc ''Zebra'' ''Banana'' \<le> 0" using trans by blast
    with zb show False by simp
  qed
  have fr: "filteredRows zebraModel (Some []) = rows zebraModel"
    by (simp add: filteredRows_def orEmpty_def toLowerCase_def)
  have k: "at (keys zebraModel) 1 = Some ''label''" "(1::int) < int (length (headers zebraModel))"
    by (simp_all add: at_def zebraModel_def)
  have s: "filterAndSortRows lc zebraModel (Some []) (Some 1) d =
             sortBy (rowComparator lc ''label'' (directionOrDefault d)) (rows zebraModel)" for d
    using filterAndSortRows_sort [of "Some 1" 1 zebraModel "''label''" lc "Some []" d] k fr
    by simp
  have f: "field [(''iri'', x), (''label'', y)] ''label'' = y" for x y
    by (simp add: field_def orEmpty_def)
  show "filterAndSortRows lc zebraModel (Some []) (Some 1) (Some ''asc'') =
           [[(''iri'', ''http://example.org/b''), (''label'', ''Apple'')],
            [(''iri'', ''http://example.org/c''), (''label'', ''Banana'')],
            [(''iri'', ''http://example.org/a''), (''label'', ''Zebra'')]]"
    unfolding s using ab za zb
    by (simp add: zebraModel_def sortBy_def rowComparator_def directionOrDefault_def f Let_def)
  show "filterAndSortRows lc zebraModel (Some []) (Some 1) (Some ''desc'') =
           [[(''iri'', ''http://example.org/a''), (''label'', ''Zebra'')],
            [(''iri'', ''http://example.org/c''), (''label'', ''Banana'')],
            [(''iri'', ''http://example.org/b''), (''label'', ''Apple'')]]"
    unfolding s using ab za zb
    by (simp add: zebraModel_def sortBy_def rowComparator_def directionOrDefault_def f Let_def)
qed

lemma codeUnitCompare_sign: "\<forall>a b. (codeUnitCompare a b < 0) = (0 < codeUnitCompare b a)"
  by (auto simp: codeUnitCompare_def)

lemma codeUnitCompare_trans:
  "\<forall>a b c. codeUnitCompare a b \<le> 0 \<and> codeUnitCompare b c \<le> 0 \<longrightarrow> codeUnitCompare a c \<le> 0"
  by (auto simp: codeUnitCompare_def split: if_splits)

theorem filterAndSortRows_sorting_witness:
  "filterAndSortRows codeUnitCompare zebraModel (Some []) (Some 1) (Some ''asc'') =
           [[(''iri'', ''http://example.org/b''), (''label'', ''Apple'')],
            [(''iri'', ''http://example.org/c''), (''label'', ''Banana'')],
            [(''iri'', ''http://example.org/a''), (''label'', ''Zebra'')]] \<and>
   filterAndSortRows codeUnitCompare zebraModel (Some []) (Some 1) (Some ''desc'') =
           [[(''iri'', ''http://example.org/a''), (''label'', ''Zebra'')],
            [(''iri'', ''http://example.org/c''), (''label'', ''Banana'')],
            [(''iri'', ''http://example.org/b''), (''label'', ''Apple'')]] \<and>
   orderedBy codeUnitCompare ''iri'' ''desc''
     (filterAndSortRows codeUnitCompare zebraModel (Some ''E'') (Some 0) (Some ''desc'')) \<and>
   filterAndSortRows codeUnitCompare zebraModel (Some ''an'') (Some 2) None =
     filteredRows zebraModel (Some ''an'') \<and>
   filterAndSortRows codeUnitCompare emptyKeyModel None (Some 1) None =
     filteredRows emptyKeyModel None"
proof -
  have abz: "codeUnitCompare ''Apple'' ''Banana'' < 0 \<and>
             codeUnitCompare ''Banana'' ''Zebra'' < 0" by code_simp
  note t = filterAndSortRows_sorting [of codeUnitCompare, OF codeUnitCompare_sign
             codeUnitCompare_trans]
  have s1: "sortSkipped zebraModel (Some 2)" by code_simp
  have s2: "sortSkipped emptyKeyModel (Some 1)" by code_simp
  have v: "Some 0 = Some (0::int) \<and> (0::int) \<le> 0 \<and> 0 < int (length (headers zebraModel)) \<and>
           at (keys zebraModel) 0 = Some ''iri'' \<and> ''iri'' \<noteq> []" by code_simp
  have d: "directionOrDefault (Some ''desc'') = ''desc''" by (simp add: directionOrDefault_def)
  from t [where model = zebraModel and sortIndex = "Some 0" and query = "Some ''E''"
             and dir = "Some ''desc''", THEN conjunct2, THEN conjunct1,
          rule_format, OF v, THEN conjunct2]
  have o: "orderedBy codeUnitCompare ''iri'' ''desc''
     (filterAndSortRows codeUnitCompare zebraModel (Some ''E'') (Some 0) (Some ''desc''))"
    unfolding d .
  from t [where model = zebraModel and sortIndex = "Some 2" and query = "Some ''an''"
             and dir = None, THEN conjunct1, THEN mp, OF s1]
       t [where model = emptyKeyModel and sortIndex = "Some 1" and query = None
             and dir = None, THEN conjunct1, THEN mp, OF s2]
       t [where model = zebraModel and sortIndex = None and query = None
             and dir = None, THEN conjunct2, THEN conjunct2, THEN mp, OF abz] o
  show ?thesis by (intro conjI) blast+
qed

text \<open>
  Where the claim as written fails: index 1 is within the headers of a model whose
  second key is the empty string, and the rows come back unsorted, 2 before 1.
\<close>

theorem filterAndSortRows_sorting_counterexample:
  "(0::int) \<le> 1 \<and> 1 < int (length (headers emptyKeyModel)) \<and>
   at (keys emptyKeyModel) 1 = Some [] \<and>
   filterAndSortRows codeUnitCompare emptyKeyModel (Some []) (Some 1) (Some ''asc'') =
     [[(''iri'', ''http://example.org/a''), ([], ''2'')],
      [(''iri'', ''http://example.org/b''), ([], ''1'')]] \<and>
   \<not> orderedBy codeUnitCompare [] ''asc''
       (filterAndSortRows codeUnitCompare emptyKeyModel (Some []) (Some 1) (Some ''asc''))"
  by code_simp

subsection \<open>filterAndSortRows on shared arrays\<close>

lemma readRows_append: "a < length h \<Longrightarrow> readRows (h @ xs) a = readRows h a"
  by (simp add: readRows_def nth_append)

lemma readStrings_append: "a < length h \<Longrightarrow> readStrings (h @ xs) a = readStrings h a"
  by (simp add: readStrings_def nth_append)

lemma readRows_Some_less: "readRows h a = Some rs \<Longrightarrow> a < length h"
  by (simp add: readRows_def split: if_splits)

lemma readStrings_Some_less: "readStrings h a = Some xs \<Longrightarrow> a < length h"
  by (simp add: readStrings_def split: if_splits)

lemma readModel_SomeD:
  "readModel h m = Some model \<Longrightarrow>
   readStrings h (headersRef m) = Some (headers model) \<and>
   readStrings h (keysRef m) = Some (keys model) \<and>
   readRows h (rowsRef m) = Some (rows model)"
  by (auto simp: readModel_def split: option.splits)

lemma readModel_extend:
  assumes "readModel h m = Some model" and "take (length h) h' = h"
  shows "readModel h' m = Some model"
proof -
  from assms(2) obtain xs where h': "h' = h @ xs"
    by (metis append_take_drop_id)
  from readModel_SomeD [OF assms(1)]
  have r: "readStrings h (headersRef m) = Some (headers model)"
    "readStrings h (keysRef m) = Some (keys model)"
    "readRows h (rowsRef m) = Some (rows model)" by simp_all
  then have "headersRef m < length h" "keysRef m < length h" "rowsRef m < length h"
    by (auto dest: readStrings_Some_less readRows_Some_less)
  with r show ?thesis
    by (simp add: readModel_def h' readRows_append readStrings_append)
qed

lemma readRows_last: "readRows (h @ [RowArray rs]) (length h) = Some rs"
  by (simp add: readRows_def)

lemma not_sortSkippedD:
  "\<not> sortSkipped model sortIndex \<Longrightarrow>
   \<exists>i key. sortIndex = Some i \<and> 0 \<le> i \<and> i < int (length (headers model)) \<and>
           at (keys model) i = Some key \<and> key \<noteq> []"
  by (cases sortIndex) (auto simp: sortSkipped_def)

text \<open>
  Claim C7, as the code has it. On a store that holds the model's three arrays,
  \<open>filterAndSortRows\<close> returns an address whose array is the result of the function
  on values, and it leaves every array that existed before unchanged, the model's
  headers, keys and rows with their order among them. The result is a new array when
  the query is not empty or when sorting takes place. When the query is empty and
  sorting is skipped, the result is the model's own rows array and nothing is created.
\<close>

theorem filterAndSortRowsRef_frame:
  assumes rm: "readModel h m = Some model"
  shows "\<exists>res h'. filterAndSortRowsRef lc h m query sortIndex dir = Some (res, h') \<and>
           take (length h) h' = h \<and>
           readModel h' m = Some model \<and>
           readRows h' res = Some (filterAndSortRows lc model query sortIndex dir) \<and>
           (toLowerCase (orEmpty query) = [] \<and> sortSkipped model sortIndex \<longrightarrow>
              res = rowsRef m \<and> h' = h) \<and>
           (toLowerCase (orEmpty query) \<noteq> [] \<or> \<not> sortSkipped model sortIndex \<longrightarrow>
              length h \<le> res \<and> res < length h')"
proof -
  let ?q = "toLowerCase (orEmpty query)"
  let ?f = "filter (rowMatches ?q) (rows model)"
  from readModel_SomeD [OF rm] have rr: "readRows h (rowsRef m) = Some (rows model)" by simp
  then have lt: "rowsRef m < length h" by (rule readRows_Some_less)
  have ext: "readModel h' m = Some model" if "take (length h) h' = h" for h'
    using rm that by (rule readModel_extend)
  show ?thesis
  proof (cases "sortSkipped model sortIndex")
    case True
    then have pure: "filterAndSortRows lc model query sortIndex dir = filteredRows model query"
      by (rule filterAndSortRows_skip)
    show ?thesis
    proof (cases "?q = []")
      case q: True
      have "filterAndSortRowsRef lc h m query sortIndex dir = Some (rowsRef m, h)"
        using True q rm
        by (auto simp: filterAndSortRowsRef_def sortSkipped_def Let_def split: option.splits)
      moreover have "filteredRows model query = rows model"
        using q by (simp add: filteredRows_def)
      ultimately show ?thesis using True q rr rm pure by simp
    next
      case q: False
      have "filterAndSortRowsRef lc h m query sortIndex dir =
              Some (length h, h @ [RowArray ?f])"
        using True q rm
        by (auto simp: filterAndSortRowsRef_def sortSkipped_def alloc_def Let_def
                 split: option.splits)
      moreover have "filteredRows model query = ?f"
        using q by (simp add: filteredRows_def)
      ultimately show ?thesis using q pure ext [of "h @ [RowArray ?f]"]
        by (simp add: readRows_last)
    qed
  next
    case False
    from not_sortSkippedD [OF False] obtain i key where
      ik: "sortIndex = Some i" "0 \<le> i" "i < int (length (headers model))"
          "at (keys model) i = Some key" "key \<noteq> []" by blast
    let ?cmp = "rowComparator lc key (directionOrDefault dir)"
    have pure: "filterAndSortRows lc model query sortIndex dir =
                  sortBy ?cmp (filteredRows model query)"
      using ik by (intro filterAndSortRows_sort)
    show ?thesis
    proof (cases "?q = []")
      case q: True
      have "filterAndSortRowsRef lc h m query sortIndex dir =
              Some (length h, h @ [RowArray (sortBy ?cmp (rows model))])"
        using ik q rm rr
        by (simp add: filterAndSortRowsRef_def alloc_def Let_def)
      moreover have "filteredRows model query = rows model"
        using q by (simp add: filteredRows_def)
      ultimately show ?thesis
        using False pure ext [of "h @ [RowArray (sortBy ?cmp (rows model))]"]
        by (simp add: readRows_last)
    next
      case q: False
      have "filterAndSortRowsRef lc h m query sortIndex dir =
              Some (Suc (length h), h @ [RowArray ?f, RowArray (sortBy ?cmp ?f)])"
        using ik q rm
        by (simp add: filterAndSortRowsRef_def alloc_def Let_def readRows_last
                      list_update_append)
      moreover have "filteredRows model query = ?f"
        using q by (simp add: filteredRows_def)
      moreover have "readRows (h @ [RowArray ?f, RowArray (sortBy ?cmp ?f)]) (Suc (length h))
                       = Some (sortBy ?cmp ?f)"
        by (simp add: readRows_def nth_append)
      ultimately show ?thesis
        using False pure ext [of "h @ [RowArray ?f, RowArray (sortBy ?cmp ?f)]"]
        by simp
    qed
  qed
qed

text \<open>
  Where the claim as written fails: with an empty query and no sort index the function
  returns the address of the model's rows, an array that existed before the call.
\<close>

theorem filterAndSortRowsRef_frame_counterexample:
  "filterAndSortRowsRef codeUnitCompare zebraHeap zebraRef (Some []) None (Some ''asc'') =
     Some (rowsRef zebraRef, zebraHeap) \<and>
   rowsRef zebraRef < length zebraHeap"
  by code_simp


theorem filterAndSortRowsRef_frame_witness:
  "readModel zebraHeap zebraRef = Some zebraModel \<and>
   (\<exists>res h'. filterAndSortRowsRef codeUnitCompare zebraHeap zebraRef
                 (Some ''an'') (Some 1) (Some ''asc'') = Some (res, h') \<and>
              take (length zebraHeap) h' = zebraHeap \<and>
              readModel h' zebraRef = Some zebraModel \<and>
              readRows h' res =
                Some (filterAndSortRows codeUnitCompare zebraModel
                        (Some ''an'') (Some 1) (Some ''asc'')) \<and>
              length zebraHeap \<le> res \<and> res < length h') \<and>
   (\<exists>res h'. filterAndSortRowsRef codeUnitCompare zebraHeap zebraRef
                 (Some []) None None = Some (res, h') \<and>
              res = rowsRef zebraRef \<and> h' = zebraHeap)"
proof -
  have rm: "readModel zebraHeap zebraRef = Some zebraModel" by code_simp
  have q1: "toLowerCase (orEmpty (Some ''an'')) \<noteq> []" by code_simp
  have q2: "toLowerCase (orEmpty (Some [])) = [] \<and> sortSkipped zebraModel None" by code_simp
  from filterAndSortRowsRef_frame [OF rm, of codeUnitCompare "Some ''an''" "Some 1" "Some ''asc''"] q1
  have a: "\<exists>res h'. filterAndSortRowsRef codeUnitCompare zebraHeap zebraRef
                 (Some ''an'') (Some 1) (Some ''asc'') = Some (res, h') \<and>
              take (length zebraHeap) h' = zebraHeap \<and>
              readModel h' zebraRef = Some zebraModel \<and>
              readRows h' res =
                Some (filterAndSortRows codeUnitCompare zebraModel
                        (Some ''an'') (Some 1) (Some ''asc'')) \<and>
              length zebraHeap \<le> res \<and> res < length h'"
    by blast
  from filterAndSortRowsRef_frame [OF rm, of codeUnitCompare "Some []" None None] q2
  have b: "\<exists>res h'. filterAndSortRowsRef codeUnitCompare zebraHeap zebraRef
                 (Some []) None None = Some (res, h') \<and>
              res = rowsRef zebraRef \<and> h' = zebraHeap"
    by blast
  from rm a b show ?thesis by (intro conjI)
qed

end
